theory Spec2Isabelle
  imports Complex_Main
begin

section \<open>Graph model (types.ts)\<close>

text \<open>
  The canonical graph model of the visualizer. Optional properties of the TypeScript
  interfaces (\<open>position?\<close>, \<open>size?\<close>, \<open>isDragged?\<close>, ...) are option-valued
  fields, \<open>None\<close> standing for \<open>undefined\<close>. A JavaScript number is modelled as a
  real: the adapter only passes coordinates through or computes small integers from
  array indices, which doubles represent exactly; \<open>NaN\<close> and the infinities are outside
  the model. A string is the list of its UTF-16 code units, one \<open>char\<close> per code
  unit; the model covers the strings whose code units are below 256.
\<close>

datatype node_shape = Rectangle | Circle | Diamond | Rounded | Stadium

record point =
  x :: real
  y :: real

record dims =
  width :: real
  height :: real

record node_style =
  fill :: "string option"
  stroke :: "string option"
  strokeWidth :: "real option"

record GraphNode =
  node_id :: string
  node_label :: string
  shape :: node_shape
  position :: "point option"
  node_size :: "dims option"
  style :: "node_style option"
  isDragged :: "bool option"

datatype edge_type = Arrow | Dashed | Dotted

record edge_style =
  edge_stroke :: "string option"
  edge_strokeWidth :: "real option"

record GraphEdge =
  edge_id :: string
  edge_from :: string
  edge_to :: string
  edge_label :: "string option"
  edge_type :: "edge_type option"
  edge_style :: "edge_style option"
  points :: "point list option"

record Graph =
  nodes :: "GraphNode list"
  edges :: "GraphEdge list"

record LayoutResult =
  graph :: Graph
  bounds :: dims

text \<open>
  A thrown JavaScript value: an \<open>Error\<close> instance with its message, or anything else.
\<close>

datatype js_exn = JsError string | JsOther

section \<open>Layout adapter (layout/elk.ts)\<close>

subsection \<open>The external engine's schema\<close>

text \<open>
  The ELK JSON graph, restricted to the properties the adapter writes or reads. The
  engine returns a graph of the same schema, typed \<open>any\<close> in the source, so every
  property the adapter reads from the result under \<open>||\<close> or \<open>?.\<close> is optional here.
  The arrays \<open>sources\<close> and \<open>targets\<close> are the one-element arrays
  \<open>[edge.from]\<close> and \<open>[edge.to]\<close>, of which only the element at index 0 is ever read:
  the model keeps that element. A label of an edge is modelled by its text. A result
  outside this schema on which the conversion back throws (an edge without
  \<open>sources\<close>, say) is caught by the handler that catches a failure of the engine: in
  the model it is a failure of the engine.
\<close>

record elk_child =
  elk_id :: string
  elk_label :: "string option"
  elk_width :: "real option"
  elk_height :: "real option"
  elk_x :: "real option"
  elk_y :: "real option"
  elk_layoutOptions :: "(string \<times> string) list option"
  elk_shape :: "node_shape option"

record elk_section =
  bendPoints :: "point list option"

record elk_edge =
  elk_edge_id :: string
  elk_source :: string
  elk_target :: string
  elk_labels :: "string list option"
  elk_sections :: "elk_section list option"

record elk_graph =
  elk_root_id :: string
  elk_root_options :: "(string \<times> string) list"
  elk_children :: "elk_child list option"
  elk_edges :: "elk_edge list option"
  elk_graph_width :: "real option"
  elk_graph_height :: "real option"

text \<open>
  The engine is a parameter of the adapter: \<open>elk.layout\<close> resolves with a graph
  (\<open>Inr\<close>) or throws or rejects (\<open>Inl\<close>).
\<close>

type_synonym elk_engine = "elk_graph \<Rightarrow> js_exn + elk_graph"

subsection \<open>JavaScript operators used by the adapter\<close>

text \<open>\<open>a || d\<close> on a possibly undefined number: \<open>undefined\<close> and \<open>0\<close> are falsy.\<close>

definition num_or :: "real option \<Rightarrow> real \<Rightarrow> real" where
  "num_or a d = (case a of None \<Rightarrow> d | Some v \<Rightarrow> if v = 0 then d else v)"

text \<open>\<open>a || d\<close> on a possibly undefined string: the empty string is falsy.\<close>

definition str_or :: "string option \<Rightarrow> string \<Rightarrow> string" where
  "str_or a d = (case a of None \<Rightarrow> d | Some v \<Rightarrow> if v = [] then d else v)"

text \<open>Truthiness of the optional flag \<open>node.isDragged\<close>.\<close>

definition truthy_flag :: "bool option \<Rightarrow> bool" where
  "truthy_flag b = (case b of None \<Rightarrow> False | Some v \<Rightarrow> v)"

text \<open>
  \<open>new Map(entries)\<close> followed by \<open>get\<close>: a later entry with the same key overwrites
  an earlier one, so \<open>get\<close> returns the last node carrying the id.
\<close>

definition originalNodes_of :: "Graph \<Rightarrow> string \<Rightarrow> GraphNode option" where
  "originalNodes_of g = map_of (rev (map (\<lambda>node. (node_id node, node)) (nodes g)))"

subsection \<open>The adapter\<close>

definition getDefaultNodeSize :: "node_shape \<Rightarrow> dims" where
  "getDefaultNodeSize s =
     (case s of
        Circle \<Rightarrow> \<lparr>width = 80, height = 80\<rparr>
      | Diamond \<Rightarrow> \<lparr>width = 100, height = 80\<rparr>
      | _ \<Rightarrow> \<lparr>width = 120, height = 60\<rparr>)"

definition elk_root_layoutOptions :: "(string \<times> string) list" where
  "elk_root_layoutOptions =
     [(''elk.algorithm'', ''layered''),
      (''elk.layered.spacing.nodeNodeBetweenLayers'', ''100''),
      (''elk.layered.spacing.nodeNode'', ''80''),
      (''elk.direction'', ''DOWN''),
      (''elk.padding'', ''[top=50,left=50,bottom=50,right=50]''),
      (''elk.layered.thoroughness'', ''7''),
      (''elk.layered.unnecessaryBendpoints'', ''false'')]"

definition toELKChild :: "GraphNode \<Rightarrow> elk_child" where
  "toELKChild node =
     \<lparr>elk_id = node_id node,
      elk_label = Some (node_label node),
      elk_width = Some (num_or (map_option width (node_size node))
                          (width (getDefaultNodeSize (shape node)))),
      elk_height = Some (num_or (map_option height (node_size node))
                           (height (getDefaultNodeSize (shape node)))),
      elk_x = (case position node of
                 Some p \<Rightarrow> if truthy_flag (isDragged node) then Some (x p) else None
               | None \<Rightarrow> None),
      elk_y = (case position node of
                 Some p \<Rightarrow> if truthy_flag (isDragged node) then Some (y p) else None
               | None \<Rightarrow> None),
      elk_layoutOptions =
        (if truthy_flag (isDragged node) then Some [(''elk.position'', ''fixed'')] else None),
      elk_shape = Some (shape node)\<rparr>"

definition toELKEdge :: "GraphEdge \<Rightarrow> elk_edge" where
  "toELKEdge edge =
     \<lparr>elk_edge_id = edge_id edge,
      elk_source = edge_from edge,
      elk_target = edge_to edge,
      elk_labels = Some (case edge_label edge of
                           None \<Rightarrow> []
                         | Some l \<Rightarrow> if l = [] then [] else [l]),
      elk_sections = None\<rparr>"

definition convertToELKGraph :: "Graph \<Rightarrow> elk_graph" where
  "convertToELKGraph g =
     \<lparr>elk_root_id = ''root'',
      elk_root_options = elk_root_layoutOptions,
      elk_children = Some (map toELKChild (nodes g)),
      elk_edges = Some (map toELKEdge (edges g)),
      elk_graph_width = None,
      elk_graph_height = None\<rparr>"

definition fromELKChild :: "(string \<Rightarrow> GraphNode option) \<Rightarrow> elk_child \<Rightarrow> GraphNode" where
  "fromELKChild originalNodes child =
     (let originalNode = originalNodes (elk_id child)
      in \<lparr>node_id = elk_id child,
          node_label = str_or (elk_label child) (elk_id child),
          shape = (case elk_shape child of
                     Some s \<Rightarrow> s
                   | None \<Rightarrow> (case originalNode of Some n \<Rightarrow> shape n | None \<Rightarrow> Rectangle)),
          position = Some \<lparr>x = num_or (elk_x child) 0, y = num_or (elk_y child) 0\<rparr>,
          node_size = Some \<lparr>width = num_or (elk_width child) 120,
                            height = num_or (elk_height child) 60\<rparr>,
          style = None,
          isDragged = Some (case originalNode of
                              Some n \<Rightarrow> truthy_flag (isDragged n)
                            | None \<Rightarrow> False)\<rparr>)"

definition fromELKEdge :: "elk_edge \<Rightarrow> GraphEdge" where
  "fromELKEdge edge =
     \<lparr>edge_id = elk_edge_id edge,
      edge_from = elk_source edge,
      edge_to = elk_target edge,
      edge_label = (case elk_labels edge of Some (l # _) \<Rightarrow> Some l | _ \<Rightarrow> None),
      edge_type = None,
      edge_style = None,
      points = Some (case elk_sections edge of
                       Some (s # _) \<Rightarrow> (case bendPoints s of Some ps \<Rightarrow> ps | None \<Rightarrow> [])
                     | _ \<Rightarrow> [])\<rparr>"

definition convertFromELKGraph :: "elk_graph \<Rightarrow> (string \<Rightarrow> GraphNode option) \<Rightarrow> Graph" where
  "convertFromELKGraph elkGraph originalNodes =
     \<lparr>nodes = (case elk_children elkGraph of
                 Some cs \<Rightarrow> map (fromELKChild originalNodes) cs
               | None \<Rightarrow> []),
      edges = (case elk_edges elkGraph of
                 Some es \<Rightarrow> map fromELKEdge es
               | None \<Rightarrow> [])\<rparr>"

text \<open>
  The grid placement of the node at \<open>index\<close>; \<open>{...node, position, size}\<close> keeps every
  other property of the node.
\<close>

definition fallbackNode :: "nat \<Rightarrow> GraphNode \<Rightarrow> GraphNode" where
  "fallbackNode index node =
     node\<lparr>position := Some \<lparr>x = real (index mod 4) * 150 + 50,
                              y = of_int \<lfloor>real index / 4\<rfloor> * 100 + 50\<rparr>,
          node_size := Some \<lparr>width = 120, height = 60\<rparr>\<rparr>"

definition fallbackLayout :: "Graph \<Rightarrow> LayoutResult" where
  "fallbackLayout g =
     (let maxRow = \<lceil>real (length (nodes g)) / 4\<rceil>
      in \<lparr>graph = \<lparr>nodes = map (\<lambda>(index, node). fallbackNode index node)
                                 (enumerate 0 (nodes g)),
                   edges = edges g\<rparr>,
          bounds = \<lparr>width = 4 * 150 + 100, height = of_int maxRow * 100 + 100\<rparr>\<rparr>)"

text \<open>
  What a call of \<open>layout\<close> does besides settling its promise: it may call the engine
  and it may log a warning. The promise is resolved (\<open>Inr\<close>) or rejected (\<open>Inl\<close>).
\<close>

datatype layout_event = EngineCalled elk_graph | Warned js_exn

definition layout :: "elk_engine \<Rightarrow> Graph \<Rightarrow> layout_event list \<times> (js_exn + LayoutResult)" where
  "layout elk g =
     (if length (nodes g) = 0
      then ([], Inr \<lparr>graph = \<lparr>nodes = [], edges = []\<rparr>,
                     bounds = \<lparr>width = 800, height = 600\<rparr>\<rparr>)
      else
        (let originalNodes = originalNodes_of g;
             elkGraph = convertToELKGraph g
         in case elk elkGraph of
              Inr layoutedGraph \<Rightarrow>
                ([EngineCalled elkGraph],
                 Inr \<lparr>graph = convertFromELKGraph layoutedGraph originalNodes,
                      bounds = \<lparr>width = num_or (elk_graph_width layoutedGraph) 800,
                                height = num_or (elk_graph_height layoutedGraph) 600\<rparr>\<rparr>)
            | Inl error \<Rightarrow>
                ([EngineCalled elkGraph, Warned error], Inr (fallbackLayout g))))"

section \<open>Parser (parsers/mermaid.ts)\<close>

subsection \<open>String operations\<close>

text \<open>
  White space and line terminators of ECMAScript below code unit 256: what \<open>\s\<close>
  matches and what \<open>trim\<close> strips.
\<close>

definition is_space :: "char \<Rightarrow> bool" where
  "is_space c =
     (c \<in> set [CHR 0x09, CHR 0x0A, CHR 0x0B, CHR 0x0C, CHR 0x0D, CHR 0x20, CHR 0xA0])"

text \<open>The class \<open>\w\<close>: ASCII letters, digits and the underscore.\<close>

definition is_word :: "char \<Rightarrow> bool" where
  "is_word c =
     (let n = (of_char c :: nat)
      in (48 \<le> n \<and> n \<le> 57) \<or> (65 \<le> n \<and> n \<le> 90) \<or> n = 95 \<or> (97 \<le> n \<and> n \<le> 122))"

text \<open>
  Canonicalisation of a code unit under the flag \<open>i\<close> (without the flag \<open>u\<close>). The
  only pattern characters compared under the flag are ASCII letters, and a code unit
  from 128 on never canonicalises to one below 128, so only the ASCII lower-case letters
  need to be mapped.
\<close>

definition canonicalize :: "char \<Rightarrow> char" where
  "canonicalize c =
     (let n = (of_char c :: nat) in if 97 \<le> n \<and> n \<le> 122 then char_of (n - 32) else c)"

definition trim :: "string \<Rightarrow> string" where
  "trim s = rev (dropWhile is_space (rev (dropWhile is_space s)))"

definition startsWith :: "string \<Rightarrow> string \<Rightarrow> bool" where
  "startsWith s p = (take (length p) s = p)"

definition endsWith :: "string \<Rightarrow> string \<Rightarrow> bool" where
  "endsWith s p = (length p \<le> length s \<and> drop (length s - length p) s = p)"

text \<open>\<open>s.slice(start, stop)\<close>: a negative index counts from the end of the string.\<close>

definition slice :: "string \<Rightarrow> int \<Rightarrow> int \<Rightarrow> string" where
  "slice s start stop =
     (let len = int (length s);
          lo = (if start < 0 then max (len + start) 0 else min start len);
          hi = (if stop < 0 then max (len + stop) 0 else min stop len)
      in take (nat (hi - lo)) (drop (nat lo) s))"

text \<open>
  \<open>s.split(d)\<close> for a one-character separator; the empty string splits to the list
  holding the empty string.
\<close>

fun split_acc :: "char \<Rightarrow> string \<Rightarrow> string \<Rightarrow> string list" where
  "split_acc d acc [] = [rev acc]"
| "split_acc d acc (c # cs) =
     (if c = d then rev acc # split_acc d [] cs else split_acc d (c # acc) cs)"

definition split :: "string \<Rightarrow> char \<Rightarrow> string list" where
  "split s d = split_acc d [] s"

subsection \<open>Regular expressions\<close>

text \<open>
  The fragment of ECMAScript regular expressions the parser uses: literal characters,
  greedy \<open>*\<close> and \<open>+\<close> over a character class, concatenation, alternation, a greedy
  optional group, capturing groups and the end anchor \<open>$\<close> (no flag \<open>m\<close>). Every
  pattern of the parser starts with \<open>^\<close> and has neither the flag \<open>g\<close> nor \<open>m\<close>, so
  a match can only start at index 0.

  A backtracking matcher tries the alternatives of a pattern in a fixed order and takes
  the first that lets the rest of the pattern match. \<open>rmatch\<close> returns all the ways a
  pattern matches a prefix of the string, in that order, each with the rest of the
  string and the captures; the match the matcher reports is the head of the list.
\<close>

datatype regex =
    Chars string
  | Rep0 "char \<Rightarrow> bool"
  | Rep1 "char \<Rightarrow> bool"
  | Cat regex regex
  | Alt regex regex
  | Opt regex
  | Cap nat regex
  | Eos

type_synonym captures = "nat \<Rightarrow> string option"

fun lit_match :: "bool \<Rightarrow> string \<Rightarrow> string \<Rightarrow> string option" where
  "lit_match ic [] s = Some s"
| "lit_match ic (p # ps) [] = None"
| "lit_match ic (p # ps) (c # cs) =
     (if (if ic then canonicalize p = canonicalize c else p = c)
      then lit_match ic ps cs else None)"

text \<open>
  The rests of the string after a greedy \<open>*\<close> over a class: the longest run first, then
  each shorter one.
\<close>

fun rep0 :: "(char \<Rightarrow> bool) \<Rightarrow> string \<Rightarrow> string list" where
  "rep0 p [] = [[]]"
| "rep0 p (c # cs) = (if p c then rep0 p cs @ [c # cs] else [c # cs])"

definition rep1 :: "(char \<Rightarrow> bool) \<Rightarrow> string \<Rightarrow> string list" where
  "rep1 p s = (case s of [] \<Rightarrow> [] | c # cs \<Rightarrow> if p c then rep0 p cs else [])"

fun rmatch :: "bool \<Rightarrow> regex \<Rightarrow> string \<Rightarrow> captures \<Rightarrow> (string \<times> captures) list" where
  "rmatch ic (Chars l) s c = (case lit_match ic l s of None \<Rightarrow> [] | Some r \<Rightarrow> [(r, c)])"
| "rmatch ic (Rep0 p) s c = map (\<lambda>r. (r, c)) (rep0 p s)"
| "rmatch ic (Rep1 p) s c = map (\<lambda>r. (r, c)) (rep1 p s)"
| "rmatch ic (Cat a b) s c = concat (map (\<lambda>(r, c'). rmatch ic b r c') (rmatch ic a s c))"
| "rmatch ic (Alt a b) s c = rmatch ic a s c @ rmatch ic b s c"
| "rmatch ic (Opt a) s c = rmatch ic a s c @ [(s, c)]"
| "rmatch ic (Cap n a) s c =
     map (\<lambda>(r, c'). (r, c'(n \<mapsto> take (length s - length r) s))) (rmatch ic a s c)"
| "rmatch ic Eos s c = (if s = [] then [(s, c)] else [])"

text \<open>
  \<open>regex_exec\<close> is the match at index 0: the rest of the string after the match and
  the captures, or \<open>None\<close> for \<open>null\<close>.
\<close>

definition regex_exec :: "bool \<Rightarrow> regex \<Rightarrow> string \<Rightarrow> (string \<times> captures) option" where
  "regex_exec ic r s = (case rmatch ic r s Map.empty of [] \<Rightarrow> None | m # _ \<Rightarrow> Some m)"

subsection \<open>The patterns of the parser\<close>

definition ident :: regex where
  "ident = Rep1 is_word"

definition spaces :: regex where
  "spaces = Rep0 is_space"

text \<open>\<open>(\[[^\]]+\]|\(\([^\)]+\)\)|\{[^}]+\})\<close> without its group.\<close>

definition bracket :: regex where
  "bracket =
     Alt (Cat (Chars ''['') (Cat (Rep1 (\<lambda>c. c \<noteq> CHR '']'')) (Chars '']'')))
    (Alt (Cat (Chars ''(('') (Cat (Rep1 (\<lambda>c. c \<noteq> CHR '')'')) (Chars ''))'')))
         (Cat (Chars ''{'') (Cat (Rep1 (\<lambda>c. c \<noteq> CHR ''}'')) (Chars ''}''))))"

text \<open>\<open>(?:\|([^\|]+)\|)?\<close> with its group numbered \<open>n\<close>.\<close>

definition opt_label :: "nat \<Rightarrow> regex" where
  "opt_label n = Opt (Cat (Chars ''|'') (Cat (Cap n (Rep1 (\<lambda>c. c \<noteq> CHR ''|''))) (Chars ''|'')))"

text \<open>\<open>/^(\w+)(\[[^\]]+\]|\(\([^\)]+\)\)|\{[^}]+\})$/\<close>\<close>

definition nodeRx :: regex where
  "nodeRx = Cat (Cap 1 ident) (Cat (Cap 2 bracket) Eos)"

text \<open>\<open>/^(\w+)(B)\s*-->\s*(\w+)(B)(?:\|([^\|]+)\|)?/\<close>, \<open>B\<close> the bracket alternatives.\<close>

definition edgeWithNodesRx :: regex where
  "edgeWithNodesRx =
     Cat (Cap 1 ident) (Cat (Cap 2 bracket) (Cat spaces (Cat (Chars ''-->'') (Cat spaces
    (Cat (Cap 3 ident) (Cat (Cap 4 bracket) (opt_label 5)))))))"

text \<open>\<open>/^(\w+)\s*-->\s*\|([^\|]+)\|\s*(\w+)(B)$/\<close>\<close>

definition edgeWithLabelAndNodeRx :: regex where
  "edgeWithLabelAndNodeRx =
     Cat (Cap 1 ident) (Cat spaces (Cat (Chars ''-->'') (Cat spaces (Cat (Chars ''|'')
    (Cat (Cap 2 (Rep1 (\<lambda>c. c \<noteq> CHR ''|''))) (Cat (Chars ''|'') (Cat spaces
    (Cat (Cap 3 ident) (Cat (Cap 4 bracket) Eos)))))))))"

text \<open>\<open>/^(\w+)\s*-->\s*(\w+)(?:\|([^\|]+)\|)?/\<close>\<close>

definition edgeWithLabelRx :: regex where
  "edgeWithLabelRx =
     Cat (Cap 1 ident) (Cat spaces (Cat (Chars ''-->'') (Cat spaces
    (Cat (Cap 2 ident) (opt_label 3)))))"

text \<open>\<open>/^(\w+)\s*-\.\->\s*(\w+)(?:\|([^\|]+)\|)?/\<close>\<close>

definition dashedEdgeRx :: regex where
  "dashedEdgeRx =
     Cat (Cap 1 ident) (Cat spaces (Cat (Chars ''-.->'') (Cat spaces
    (Cat (Cap 2 ident) (opt_label 3)))))"

text \<open>\<open>/^(graph|flowchart)\s+(TB|TD|BT|RL|LR)\s*\n?/i\<close>\<close>

definition headerRx :: regex where
  "headerRx =
     Cat (Cap 1 (Alt (Chars ''graph'') (Chars ''flowchart''))) (Cat (Rep1 is_space)
    (Cat (Cap 2 (Alt (Chars ''TB'') (Alt (Chars ''TD'') (Alt (Chars ''BT'')
                (Alt (Chars ''RL'') (Chars ''LR''))))))
    (Cat spaces (Opt (Chars [CHR 0x0A])))))"

text \<open>
  \<open>line.match(re)\<close> with the destructuring of the match array. A group outside the
  optional part takes part in every match (lemma \<open>rmatch_defined_groups\<close> below), so
  the last case of each definition is never reached.
\<close>

definition nodeMatch :: "string \<Rightarrow> (string \<times> string) option" where
  "nodeMatch line =
     (case regex_exec False nodeRx line of
        None \<Rightarrow> None
      | Some (_, c) \<Rightarrow>
          (case (c 1, c 2) of (Some i, Some nodeDef) \<Rightarrow> Some (i, nodeDef) | _ \<Rightarrow> None))"

definition edgeWithNodesMatch ::
  "string \<Rightarrow> (string \<times> string \<times> string \<times> string \<times> string option) option" where
  "edgeWithNodesMatch line =
     (case regex_exec False edgeWithNodesRx line of
        None \<Rightarrow> None
      | Some (_, c) \<Rightarrow>
          (case (c 1, c 2, c 3, c 4) of
             (Some fromId, Some fromNodeDef, Some toId, Some toNodeDef) \<Rightarrow>
               Some (fromId, fromNodeDef, toId, toNodeDef, c 5)
           | _ \<Rightarrow> None))"

definition edgeWithLabelAndNodeMatch ::
  "string \<Rightarrow> (string \<times> string \<times> string \<times> string) option" where
  "edgeWithLabelAndNodeMatch line =
     (case regex_exec False edgeWithLabelAndNodeRx line of
        None \<Rightarrow> None
      | Some (_, c) \<Rightarrow>
          (case (c 1, c 2, c 3, c 4) of
             (Some from_id, Some label, Some toId, Some toNodeDef) \<Rightarrow>
               Some (from_id, label, toId, toNodeDef)
           | _ \<Rightarrow> None))"

definition edgeWithLabelMatch :: "string \<Rightarrow> (string \<times> string \<times> string option) option" where
  "edgeWithLabelMatch line =
     (case regex_exec False edgeWithLabelRx line of
        None \<Rightarrow> None
      | Some (_, c) \<Rightarrow>
          (case (c 1, c 2) of
             (Some from_id, Some to_id) \<Rightarrow> Some (from_id, to_id, c 3)
           | _ \<Rightarrow> None))"

definition dashedEdgeMatch :: "string \<Rightarrow> (string \<times> string \<times> string option) option" where
  "dashedEdgeMatch line =
     (case regex_exec False dashedEdgeRx line of
        None \<Rightarrow> None
      | Some (_, c) \<Rightarrow>
          (case (c 1, c 2) of
             (Some from_id, Some to_id) \<Rightarrow> Some (from_id, to_id, c 3)
           | _ \<Rightarrow> None))"

subsection \<open>The node registry\<close>

text \<open>
  A JavaScript \<open>Map\<close> keeps its keys in insertion order, and \<open>set\<close> on a key it already
  holds replaces the value where the key stands.
\<close>

type_synonym node_map = "(string \<times> GraphNode) list"

definition map_has :: "node_map \<Rightarrow> string \<Rightarrow> bool" where
  "map_has m k = (k \<in> set (map fst m))"

fun map_set :: "string \<Rightarrow> GraphNode \<Rightarrow> node_map \<Rightarrow> node_map" where
  "map_set k v [] = [(k, v)]"
| "map_set k v (e # m) = (if fst e = k then (k, v) # m else e # map_set k v m)"

definition map_values :: "node_map \<Rightarrow> GraphNode list" where
  "map_values m = map snd m"

subsection \<open>The parser\<close>

record ParseError =
  err_message :: string
  err_line :: "nat option"
  err_column :: "nat option"

record ParseResult =
  result_graph :: "Graph option"
  result_error :: "ParseError option"

text \<open>A node as the parser builds it: id, label and shape, every other property absent.\<close>

definition plain_node :: "string \<Rightarrow> string \<Rightarrow> node_shape \<Rightarrow> GraphNode" where
  "plain_node i l s =
     \<lparr>node_id = i, node_label = l, shape = s, position = None, node_size = None,
      style = None, isDragged = None\<rparr>"

definition parseNodeDefinition :: "string \<Rightarrow> string \<Rightarrow> GraphNode" where
  "parseNodeDefinition i nodeDef =
     (if startsWith nodeDef ''[['' \<and> endsWith nodeDef '']]''
      then plain_node i (trim (slice nodeDef 2 (- 2))) Rectangle
      else if startsWith nodeDef ''['' \<and> endsWith nodeDef '']''
      then plain_node i (trim (slice nodeDef 1 (- 1))) Rectangle
      else if startsWith nodeDef ''(('' \<and> endsWith nodeDef ''))''
      then plain_node i (trim (slice nodeDef 2 (- 2))) Circle
      else if startsWith nodeDef ''{'' \<and> endsWith nodeDef ''}''
      then plain_node i (trim (slice nodeDef 1 (- 1))) Diamond
      else plain_node i i Rectangle)"

text \<open>An edge as the parser builds it; its id is \<open>from-to\<close>.\<close>

definition new_edge :: "string \<Rightarrow> string \<Rightarrow> string option \<Rightarrow> edge_type \<Rightarrow> GraphEdge" where
  "new_edge from_id to_id l t =
     \<lparr>edge_id = from_id @ ''-'' @ to_id, edge_from = from_id, edge_to = to_id,
      edge_label = l, edge_type = Some t, edge_style = None, points = None\<rparr>"

text \<open>
  The body of the loop over the lines: the patterns are tried in the order of the
  source, and a line that matches none leaves the registry and the edges as they are.
\<close>

definition process_line ::
  "string \<Rightarrow> node_map \<times> GraphEdge list \<Rightarrow> node_map \<times> GraphEdge list" where
  "process_line line st =
     (case st of (nodes0, edges0) \<Rightarrow>
     (case nodeMatch line of
        Some (i, nodeDef) \<Rightarrow> (map_set i (parseNodeDefinition i nodeDef) nodes0, edges0)
      | None \<Rightarrow>
     (case edgeWithNodesMatch line of
        Some (fromId, fromNodeDef, toId, toNodeDef, label) \<Rightarrow>
          (let nodes1 = map_set fromId (parseNodeDefinition fromId fromNodeDef) nodes0;
               nodes2 = map_set toId (parseNodeDefinition toId toNodeDef) nodes1
           in (nodes2, edges0 @ [new_edge fromId toId (map_option trim label) Arrow]))
      | None \<Rightarrow>
     (case edgeWithLabelAndNodeMatch line of
        Some (from_id, label, toId, toNodeDef) \<Rightarrow>
          (let nodes1 = (if \<not> map_has nodes0 from_id
                         then map_set from_id (plain_node from_id from_id Rectangle) nodes0
                         else nodes0);
               nodes2 = map_set toId (parseNodeDefinition toId toNodeDef) nodes1
           in (nodes2, edges0 @ [new_edge from_id toId (Some (trim label)) Arrow]))
      | None \<Rightarrow>
     (case edgeWithLabelMatch line of
        Some (from_id, to_id, label) \<Rightarrow>
          (let nodes1 = (if \<not> map_has nodes0 from_id
                         then map_set from_id (plain_node from_id from_id Rectangle) nodes0
                         else nodes0);
               nodes2 = (if \<not> map_has nodes1 to_id
                         then map_set to_id (plain_node to_id to_id Rectangle) nodes1
                         else nodes1)
           in (nodes2, edges0 @ [new_edge from_id to_id (map_option trim label) Arrow]))
      | None \<Rightarrow>
     (case dashedEdgeMatch line of
        Some (from_id, to_id, label) \<Rightarrow>
          (let nodes1 = (if \<not> map_has nodes0 from_id
                         then map_set from_id (plain_node from_id from_id Rectangle) nodes0
                         else nodes0);
               nodes2 = (if \<not> map_has nodes1 to_id
                         then map_set to_id (plain_node to_id to_id Rectangle) nodes1
                         else nodes1)
           in (nodes2, edges0 @ [new_edge from_id to_id (map_option trim label) Dashed]))
      | None \<Rightarrow> (nodes0, edges0)))))))"

definition source_lines :: "string \<Rightarrow> string list" where
  "source_lines code =
     filter (\<lambda>line. line \<noteq> [] \<and> \<not> startsWith line ''%%'') (map trim (split code (CHR 0x0A)))"

definition parseFlowchartContent :: "string \<Rightarrow> Graph" where
  "parseFlowchartContent code =
     (case foldl (\<lambda>st line. process_line line st) ([], []) (source_lines code) of
        (nodes1, edges1) \<Rightarrow> \<lparr>nodes = map_values nodes1, edges = edges1\<rparr>)"

definition cleanMermaidCode :: "string \<Rightarrow> string" where
  "cleanMermaidCode code =
     trim (case regex_exec True headerRx code of Some (rest, _) \<Rightarrow> rest | None \<Rightarrow> code)"

text \<open>
  \<open>parse\<close> is a \<open>try\<close> block with a \<open>catch\<close> handler. \<open>parse_try\<close> is the block: it
  returns a result (\<open>Inr\<close>) or throws (\<open>Inl\<close>). \<open>parse_catch\<close> is the handler.
\<close>

definition parse_try :: "string \<Rightarrow> js_exn + ParseResult" where
  "parse_try mermaidCode =
     (if trim mermaidCode = []
      then Inr \<lparr>result_graph = None,
                result_error = Some \<lparr>err_message = ''Empty Mermaid code'',
                                      err_line = None, err_column = None\<rparr>\<rparr>
      else (let cleanCode = cleanMermaidCode mermaidCode
            in Inr \<lparr>result_graph = Some (parseFlowchartContent cleanCode),
                     result_error = None\<rparr>))"

definition parse_catch :: "js_exn \<Rightarrow> ParseResult" where
  "parse_catch error =
     \<lparr>result_graph = None,
      result_error = Some \<lparr>err_message = (case error of
                                             JsError m \<Rightarrow> m
                                           | JsOther \<Rightarrow> ''Unknown parsing error''),
                            err_line = None, err_column = None\<rparr>\<rparr>"

definition parse :: "string \<Rightarrow> ParseResult" where
  "parse mermaidCode =
     (case parse_try mermaidCode of Inr r \<Rightarrow> r | Inl error \<Rightarrow> parse_catch error)"

subsection \<open>Reading the results of the matcher\<close>

text \<open>
  \<open>reports\<close> says which match the backtracking matcher reports: the head of the list
  of results. \<open>nullable\<close> and \<open>first_char\<close> bound what a pattern can match: the
  empty string, and the first character of a match that is not empty.
\<close>

definition reports :: "bool \<Rightarrow> regex \<Rightarrow> string \<Rightarrow> captures \<Rightarrow> string \<times> captures \<Rightarrow> bool" where
  "reports ic r s c m = (case rmatch ic r s c of [] \<Rightarrow> False | m' # _ \<Rightarrow> m' = m)"

primrec nullable :: "regex \<Rightarrow> bool" where
  "nullable (Chars l) = (l = [])"
| "nullable (Rep0 p) = True"
| "nullable (Rep1 p) = False"
| "nullable (Cat a b) = (nullable a \<and> nullable b)"
| "nullable (Alt a b) = (nullable a \<or> nullable b)"
| "nullable (Opt a) = True"
| "nullable (Cap n a) = nullable a"
| "nullable Eos = True"

primrec first_char :: "regex \<Rightarrow> char \<Rightarrow> bool" where
  "first_char (Chars l) ch = (case l of [] \<Rightarrow> False | l0 # _ \<Rightarrow> ch = l0)"
| "first_char (Rep0 p) ch = p ch"
| "first_char (Rep1 p) ch = p ch"
| "first_char (Cat a b) ch = (first_char a ch \<or> (nullable a \<and> first_char b ch))"
| "first_char (Alt a b) ch = (first_char a ch \<or> first_char b ch)"
| "first_char (Opt a) ch = first_char a ch"
| "first_char (Cap n a) ch = first_char a ch"
| "first_char Eos ch = False"

text \<open>The groups that take part in every match of a pattern.\<close>

primrec defined_groups :: "regex \<Rightarrow> nat set" where
  "defined_groups (Chars l) = {}"
| "defined_groups (Rep0 p) = {}"
| "defined_groups (Rep1 p) = {}"
| "defined_groups (Cat a b) = defined_groups a \<union> defined_groups b"
| "defined_groups (Alt a b) = defined_groups a \<inter> defined_groups b"
| "defined_groups (Opt a) = {}"
| "defined_groups (Cap n a) = insert n (defined_groups a)"
| "defined_groups Eos = {}"

text \<open>A bracket form is a string that the bracket alternatives match as a whole.\<close>

definition bracketForm :: "string \<Rightarrow> bool" where
  "bracketForm s = list_ex (\<lambda>m. fst m = []) (rmatch False bracket s Map.empty)"

subsection \<open>The invariant of the loop\<close>

text \<open>
  Every entry of the registry is stored under the id of its node, and both ends of
  every edge are keys of the registry.
\<close>

definition registry_ok :: "node_map \<times> GraphEdge list \<Rightarrow> bool" where
  "registry_ok st =
     (list_all (\<lambda>e. node_id (snd e) = fst e) (fst st)
      \<and> list_all (\<lambda>e. map_has (fst st) (edge_from e) \<and> map_has (fst st) (edge_to e)) (snd st))"

subsection \<open>The merge rule\<close>

text \<open>
  What a line does to the registry, read off the branches of the loop: it declares an
  id with a bracket form (\<open>nodes.set\<close> with the decoded node), or it ensures that an
  id is registered (a default node unless the registry has the id). \<open>first_seen\<close>
  lists ids in the order of their first occurrence, \<open>last_declared\<close> is the bracket
  form of the last declaration of an id, and \<open>merged_node\<close> is the node the merge rule
  gives an id: decoded from its last declaration, or the default node when the id was
  never declared.
\<close>

datatype node_op = Declare string string | Ensure string

primrec op_id :: "node_op \<Rightarrow> string" where
  "op_id (Declare i d) = i"
| "op_id (Ensure i) = i"

primrec apply_op :: "node_map \<Rightarrow> node_op \<Rightarrow> node_map" where
  "apply_op m (Declare i d) = map_set i (parseNodeDefinition i d) m"
| "apply_op m (Ensure i) =
     (if \<not> map_has m i then map_set i (plain_node i i Rectangle) m else m)"

definition line_ops :: "string \<Rightarrow> node_op list" where
  "line_ops line =
     (case nodeMatch line of
        Some (i, nodeDef) \<Rightarrow> [Declare i nodeDef]
      | None \<Rightarrow>
     (case edgeWithNodesMatch line of
        Some (fromId, fromNodeDef, toId, toNodeDef, label) \<Rightarrow>
          [Declare fromId fromNodeDef, Declare toId toNodeDef]
      | None \<Rightarrow>
     (case edgeWithLabelAndNodeMatch line of
        Some (from_id, label, toId, toNodeDef) \<Rightarrow> [Ensure from_id, Declare toId toNodeDef]
      | None \<Rightarrow>
     (case edgeWithLabelMatch line of
        Some (from_id, to_id, label) \<Rightarrow> [Ensure from_id, Ensure to_id]
      | None \<Rightarrow>
     (case dashedEdgeMatch line of
        Some (from_id, to_id, label) \<Rightarrow> [Ensure from_id, Ensure to_id]
      | None \<Rightarrow> [])))))"

primrec first_seen :: "string list \<Rightarrow> string list" where
  "first_seen [] = []"
| "first_seen (i # is) = i # filter (\<lambda>j. j \<noteq> i) (first_seen is)"

primrec last_declared :: "node_op list \<Rightarrow> string \<Rightarrow> string option" where
  "last_declared [] i = None"
| "last_declared (opn # ops) i =
     (case last_declared ops i of
        Some d \<Rightarrow> Some d
      | None \<Rightarrow> (case opn of Declare j d \<Rightarrow> if j = i then Some d else None | Ensure j \<Rightarrow> None))"

definition merged_node :: "node_op list \<Rightarrow> string \<Rightarrow> GraphNode" where
  "merged_node ops i =
     (case last_declared ops i of
        Some d \<Rightarrow> parseNodeDefinition i d
      | None \<Rightarrow> plain_node i i Rectangle)"

definition flowchart_ops :: "string \<Rightarrow> node_op list" where
  "flowchart_ops code = concat (map line_ops (source_lines code))"

section \<open>Example inputs\<close>

text \<open>
  A graph with one node that the user has dragged to (500, 300), an engine that
  rejects every call, and a child of an engine result that has lost its shape.
\<close>

definition pinned_example :: Graph where
  "pinned_example =
     \<lparr>nodes = [\<lparr>node_id = ''A'', node_label = ''Start'', shape = Circle,
                position = Some \<lparr>x = 500, y = 300\<rparr>, node_size = None, style = None,
                isDragged = Some True\<rparr>],
      edges = []\<rparr>"

definition failing_engine :: elk_engine where
  "failing_engine elkGraph = Inl (JsError ''layout failed'')"

definition stripped_child :: elk_child where
  "stripped_child =
     \<lparr>elk_id = ''A'', elk_label = None, elk_width = Some 80, elk_height = Some 80,
      elk_x = Some 12, elk_y = Some 34, elk_layoutOptions = None, elk_shape = None\<rparr>"

text \<open>
  The diagram of the README, which is also the one the application starts with, and
  the graph the parser returns for it.
\<close>

definition readme_example :: string where
  "readme_example =
     ''graph TD'' @ [CHR 0x0A] @
     ''    A[Start] --> B{Decision}'' @ [CHR 0x0A] @
     ''    B -->|Yes| C[Process A]'' @ [CHR 0x0A] @
     ''    B -->|No| D[Process B]'' @ [CHR 0x0A] @
     ''    C --> E[End]'' @ [CHR 0x0A] @
     ''    D --> E''"

definition readme_graph :: Graph where
  "readme_graph =
     \<lparr>nodes = [plain_node ''A'' ''Start'' Rectangle, plain_node ''B'' ''Decision'' Diamond,
               plain_node ''C'' ''Process A'' Rectangle, plain_node ''D'' ''Process B'' Rectangle,
               plain_node ''E'' ''E'' Rectangle],
      edges = [new_edge ''A'' ''B'' None Arrow, new_edge ''B'' ''C'' (Some ''Yes'') Arrow,
               new_edge ''B'' ''D'' (Some ''No'') Arrow, new_edge ''C'' ''E'' None Arrow,
               new_edge ''D'' ''E'' None Arrow]\<rparr>"

section \<open>Properties of the layout adapter\<close>

subsection \<open>The empty graph\<close>

text \<open>
  C4. A graph with zero nodes is laid out to the empty graph with bounds 800 by 600, and
  the engine is not called: the call has no event, whatever the engine is.
\<close>

theorem layout_empty_graph:
  "layout elk \<lparr>nodes = [], edges = es\<rparr> =
     ([], Inr \<lparr>graph = \<lparr>nodes = [], edges = []\<rparr>, bounds = \<lparr>width = 800, height = 600\<rparr>\<rparr>)"
  by (simp add: layout_def)

subsection \<open>The fallback grid\<close>

lemma floor_quarter: "\<lfloor>real i / 4\<rfloor> = int (i div 4)"
  by (metis floor_divide_of_nat_eq of_nat_numeral)

lemma ceiling_quarter: "\<lceil>real n / 4\<rceil> = int ((n + 3) div 4)"
proof (rule ceiling_unique)
  have a: "4 * ((n + 3) div 4) < n + 4" by arith
  have b: "n \<le> 4 * ((n + 3) div 4)" by arith
  from a have "real (4 * ((n + 3) div 4)) < real (n + 4)" by (simp only: of_nat_less_iff)
  then show "real_of_int (int ((n + 3) div 4)) - 1 < real n / 4" by simp
  from b have "real n \<le> real (4 * ((n + 3) div 4))" by (simp only: of_nat_le_iff)
  then show "real n / 4 \<le> real_of_int (int ((n + 3) div 4))" by simp
qed

lemma fallbackNode_grid:
  "fallbackNode i node =
     node\<lparr>position := Some \<lparr>x = real ((i mod 4) * 150 + 50), y = real ((i div 4) * 100 + 50)\<rparr>,
          node_size := Some \<lparr>width = 120, height = 60\<rparr>\<rparr>"
  by (simp add: fallbackNode_def floor_quarter)

lemma fallbackLayout_nodes_nth:
  "i < length (nodes g) \<Longrightarrow>
     nodes (graph (fallbackLayout g)) ! i = fallbackNode i (nodes g ! i)"
  by (simp add: fallbackLayout_def Let_def nth_enumerate_eq)

lemma fallbackLayout_length:
  "length (nodes (graph (fallbackLayout g))) = length (nodes g)"
  by (simp add: fallbackLayout_def Let_def)

lemma layout_engine_fails:
  "nodes g \<noteq> [] \<Longrightarrow> elk (convertToELKGraph g) = Inl e \<Longrightarrow>
     layout elk g = ([EngineCalled (convertToELKGraph g), Warned e], Inr (fallbackLayout g))"
  by (simp add: layout_def Let_def)

text \<open>
  C5. When the engine throws or rejects (it is called only for a graph with a node),
  the promise resolves to the fallback layout: the node at index \<open>i\<close> of the input is
  kept but for its position, which becomes \<open>x = (i mod 4) * 150 + 50\<close>,
  \<open>y = (i div 4) * 100 + 50\<close>, and its size, which becomes 120 by 60 whatever its shape;
  the bounds are \<open>4 * 150 + 100\<close> wide and \<open>ceil(N / 4) * 100 + 100\<close> high for \<open>N\<close>
  nodes, where \<open>ceil(N / 4)\<close> is \<open>(N + 3) div 4\<close>.
\<close>

theorem fallback_grid_formula:
  assumes "nodes g \<noteq> []" and "elk (convertToELKGraph g) = Inl e"
  shows "snd (layout elk g) = Inr (fallbackLayout g)
       \<and> length (nodes (graph (fallbackLayout g))) = length (nodes g)
       \<and> (\<forall>i < length (nodes g).
            nodes (graph (fallbackLayout g)) ! i =
              (nodes g ! i)\<lparr>position := Some \<lparr>x = real ((i mod 4) * 150 + 50),
                                                 y = real ((i div 4) * 100 + 50)\<rparr>,
                            node_size := Some \<lparr>width = 120, height = 60\<rparr>\<rparr>)
       \<and> bounds (fallbackLayout g) =
            \<lparr>width = real (4 * 150 + 100),
             height = of_int \<lceil>real (length (nodes g)) / 4\<rceil> * 100 + 100\<rparr>
       \<and> \<lceil>real (length (nodes g)) / 4\<rceil> = int ((length (nodes g) + 3) div 4)"
proof -
  have "snd (layout elk g) = Inr (fallbackLayout g)"
    using assms by (simp add: layout_engine_fails)
  moreover have "\<forall>i < length (nodes g).
            nodes (graph (fallbackLayout g)) ! i =
              (nodes g ! i)\<lparr>position := Some \<lparr>x = real ((i mod 4) * 150 + 50),
                                                 y = real ((i div 4) * 100 + 50)\<rparr>,
                            node_size := Some \<lparr>width = 120, height = 60\<rparr>\<rparr>"
    by (simp add: fallbackLayout_nodes_nth fallbackNode_grid)
  moreover have "bounds (fallbackLayout g) =
            \<lparr>width = real (4 * 150 + 100),
             height = of_int \<lceil>real (length (nodes g)) / 4\<rceil> * 100 + 100\<rparr>"
    by (simp add: fallbackLayout_def Let_def)
  ultimately show ?thesis
    by (simp add: fallbackLayout_length ceiling_quarter)
qed

theorem fallback_grid_formula_witness:
  "nodes pinned_example \<noteq> []
   \<and> failing_engine (convertToELKGraph pinned_example) = Inl (JsError ''layout failed'')
   \<and> snd (layout failing_engine pinned_example) = Inr (fallbackLayout pinned_example)
   \<and> nodes (graph (fallbackLayout pinned_example)) ! 0 =
        (nodes pinned_example ! 0)\<lparr>position := Some \<lparr>x = 50, y = 50\<rparr>,
                                  node_size := Some \<lparr>width = 120, height = 60\<rparr>\<rparr>
   \<and> bounds (fallbackLayout pinned_example) = \<lparr>width = 700, height = 200\<rparr>"
proof -
  have h1: "nodes pinned_example \<noteq> []" by (simp add: pinned_example_def)
  have h2: "failing_engine (convertToELKGraph pinned_example) = Inl (JsError ''layout failed'')"
    by (simp add: failing_engine_def)
  have len: "(0::nat) < length (nodes pinned_example)" by (simp add: pinned_example_def)
  have c: "\<lceil>real (length (nodes pinned_example)) / 4\<rceil> = 1"
    using ceiling_quarter [of 1] by (simp add: pinned_example_def)
  from fallback_grid_formula [where g = pinned_example and elk = failing_engine, OF h1 h2]
    len c h1 h2
  show ?thesis
    by simp
qed

subsection \<open>The promise always resolves\<close>

lemma convertFromELKGraph_placed:
  "n \<in> set (nodes (convertFromELKGraph out orig)) \<Longrightarrow>
     position n \<noteq> None \<and> node_size n \<noteq> None"
  by (auto simp add: convertFromELKGraph_def fromELKChild_def Let_def split: option.splits)

lemma fallbackLayout_placed:
  "n \<in> set (nodes (graph (fallbackLayout g))) \<Longrightarrow>
     position n \<noteq> None \<and> node_size n \<noteq> None"
  by (auto simp add: fallbackLayout_def fallbackNode_def Let_def)

text \<open>
  C7. For every engine and every graph the promise of \<open>layout\<close> is resolved, never
  rejected, and the result is complete: each of its nodes has a position and a size.
  When the engine throws or rejects, the failure is logged as a warning and the result
  is the fallback layout.
\<close>

theorem layout_always_resolves:
  "\<exists>r. snd (layout elk g) = Inr r
       \<and> (\<forall>n \<in> set (nodes (graph r)). position n \<noteq> None \<and> node_size n \<noteq> None)
       \<and> (\<forall>e. nodes g \<noteq> [] \<and> elk (convertToELKGraph g) = Inl e \<longrightarrow>
              r = fallbackLayout g
              \<and> fst (layout elk g) = [EngineCalled (convertToELKGraph g), Warned e])"
proof -
  consider
    (empty) "layout elk g = ([], Inr \<lparr>graph = \<lparr>nodes = [], edges = []\<rparr>,
                           bounds = \<lparr>width = 800, height = 600\<rparr>\<rparr>)" and "nodes g = []"
  | (ok) out where "layout elk g =
         ([EngineCalled (convertToELKGraph g)],
          Inr \<lparr>graph = convertFromELKGraph out (originalNodes_of g),
               bounds = \<lparr>width = num_or (elk_graph_width out) 800,
                         height = num_or (elk_graph_height out) 600\<rparr>\<rparr>)"
       and "elk (convertToELKGraph g) = Inr out"
  | (failed) e where "layout elk g =
         ([EngineCalled (convertToELKGraph g), Warned e], Inr (fallbackLayout g))"
       and "elk (convertToELKGraph g) = Inl e"
    by (cases "elk (convertToELKGraph g)"; cases "nodes g = []")
       (simp_all add: layout_def Let_def)
  then show ?thesis
  proof cases
    case empty
    then show ?thesis by simp
  next
    case ok
    then show ?thesis using convertFromELKGraph_placed by fastforce
  next
    case failed
    then show ?thesis using fallbackLayout_placed by fastforce
  qed
qed

theorem layout_always_resolves_witness:
  "nodes pinned_example \<noteq> []
   \<and> failing_engine (convertToELKGraph pinned_example) = Inl (JsError ''layout failed'')
   \<and> snd (layout failing_engine pinned_example) = Inr (fallbackLayout pinned_example)
   \<and> fst (layout failing_engine pinned_example) =
       [EngineCalled (convertToELKGraph pinned_example), Warned (JsError ''layout failed'')]"
proof -
  have h: "nodes pinned_example \<noteq> []
     \<and> failing_engine (convertToELKGraph pinned_example) = Inl (JsError ''layout failed'')"
    by (simp add: pinned_example_def failing_engine_def)
  from layout_always_resolves [of failing_engine pinned_example] h show ?thesis
    by metis
qed

subsection \<open>Shapes across the engine's schema\<close>

lemma originalNodes_of_distinct:
  assumes "distinct (map node_id (nodes g))" and "n \<in> set (nodes g)"
  shows "originalNodes_of g (node_id n) = Some n"
proof -
  let ?entries = "rev (map (\<lambda>node. (node_id node, node)) (nodes g))"
  have "distinct (map fst ?entries)"
    using assms(1) by (simp add: rev_map [symmetric] comp_def)
  moreover have "(node_id n, n) \<in> set ?entries"
    using assms(2) by auto
  ultimately show ?thesis
    unfolding originalNodes_of_def by (rule map_of_is_SomeI)
qed

lemma fromELKChild_toELKChild_shape:
  "shape (fromELKChild orig (toELKChild n)) = shape n"
  by (simp add: fromELKChild_def toELKChild_def Let_def)

lemma fromELKChild_toELKChild_id:
  "node_id (fromELKChild orig (toELKChild n)) = node_id n"
  by (simp add: fromELKChild_def toELKChild_def Let_def)

text \<open>
  C8. Converting a graph to the engine's schema and back gives, node by node, the ids
  and the shapes of the input: the shape travels with the child. And when the ids of
  the input are distinct, a child of the engine's result that carries the id of an input
  node, and either has kept the shape it was given or has lost it (the engine's schema
  has no shape), is converted back to a node of the input node's shape.
\<close>

theorem shape_round_trip:
  "map shape (nodes (convertFromELKGraph (convertToELKGraph g) (originalNodes_of g)))
     = map shape (nodes g)
   \<and> map node_id (nodes (convertFromELKGraph (convertToELKGraph g) (originalNodes_of g)))
     = map node_id (nodes g)
   \<and> (\<forall>(n::GraphNode) (child::elk_child). distinct (map node_id (nodes g)) \<and> n \<in> set (nodes g)
          \<and> elk_id child = node_id n
          \<and> (elk_shape child = None \<or> elk_shape child = Some (shape n))
        \<longrightarrow> shape (fromELKChild (originalNodes_of g) child) = shape n)"
proof (intro conjI allI impI)
  show "map shape (nodes (convertFromELKGraph (convertToELKGraph g) (originalNodes_of g)))
     = map shape (nodes g)"
    by (simp add: convertFromELKGraph_def convertToELKGraph_def comp_def
        fromELKChild_toELKChild_shape)
  show "map node_id (nodes (convertFromELKGraph (convertToELKGraph g) (originalNodes_of g)))
     = map node_id (nodes g)"
    by (simp add: convertFromELKGraph_def convertToELKGraph_def comp_def
        fromELKChild_toELKChild_id)
next
  fix n :: GraphNode and child :: elk_child
  assume h: "distinct (map node_id (nodes g)) \<and> n \<in> set (nodes g)
          \<and> elk_id child = node_id n
          \<and> (elk_shape child = None \<or> elk_shape child = Some (shape n))"
  then have "originalNodes_of g (elk_id child) = Some n"
    by (simp add: originalNodes_of_distinct)
  with h show "shape (fromELKChild (originalNodes_of g) child) = shape n"
    by (auto simp add: fromELKChild_def Let_def)
qed

theorem shape_round_trip_witness:
  "distinct (map node_id (nodes pinned_example))
   \<and> hd (nodes pinned_example) \<in> set (nodes pinned_example)
   \<and> elk_id stripped_child = node_id (hd (nodes pinned_example))
   \<and> elk_shape stripped_child = None
   \<and> shape (fromELKChild (originalNodes_of pinned_example) stripped_child) = Circle
   \<and> map shape (nodes (convertFromELKGraph (convertToELKGraph pinned_example)
                         (originalNodes_of pinned_example))) = [Circle]"
proof -
  have h: "distinct (map node_id (nodes pinned_example))
     \<and> hd (nodes pinned_example) \<in> set (nodes pinned_example)
     \<and> elk_id stripped_child = node_id (hd (nodes pinned_example))
     \<and> (elk_shape stripped_child = None
        \<or> elk_shape stripped_child = Some (shape (hd (nodes pinned_example))))"
    by (simp add: pinned_example_def stripped_child_def)
  have s: "shape (hd (nodes pinned_example)) = Circle"
    by (simp add: pinned_example_def)
  have m: "map shape (nodes pinned_example) = [Circle]"
    by (simp add: pinned_example_def)
  have n: "elk_shape stripped_child = None"
    by (simp add: stripped_child_def)
  from shape_round_trip [of pinned_example] h s m n show ?thesis
    by metis
qed

subsection \<open>Pinned nodes\<close>

text \<open>
  C1. The pinned node of \<open>pinned_example\<close> stands at (500, 300) before the call. The
  engine fails, and the fallback layout moves the node to the first cell of the grid,
  (50, 50): on the fallback path a pinned node does not keep its position.
\<close>

theorem pinned_node_moved_by_fallback:
  "layout failing_engine pinned_example =
     ([EngineCalled (convertToELKGraph pinned_example), Warned (JsError ''layout failed'')],
      Inr \<lparr>graph = \<lparr>nodes = [\<lparr>node_id = ''A'', node_label = ''Start'', shape = Circle,
                               position = Some \<lparr>x = 50, y = 50\<rparr>,
                               node_size = Some \<lparr>width = 120, height = 60\<rparr>,
                               style = None, isDragged = Some True\<rparr>],
                     edges = []\<rparr>,
           bounds = \<lparr>width = 700, height = 200\<rparr>\<rparr>)
   \<and> map position (nodes pinned_example) = [Some \<lparr>x = 500, y = 300\<rparr>]
   \<and> map isDragged (nodes pinned_example) = [Some True]"
proof -
  have c: "\<lceil>(1::real) / 4\<rceil> = 1"
    using ceiling_quarter [of 1] by simp
  have "layout failing_engine pinned_example =
     ([EngineCalled (convertToELKGraph pinned_example), Warned (JsError ''layout failed'')],
      Inr (fallbackLayout pinned_example))"
    by (rule layout_engine_fails) (simp_all add: pinned_example_def failing_engine_def)
  moreover have "fallbackLayout pinned_example =
     \<lparr>graph = \<lparr>nodes = [\<lparr>node_id = ''A'', node_label = ''Start'', shape = Circle,
                               position = Some \<lparr>x = 50, y = 50\<rparr>,
                               node_size = Some \<lparr>width = 120, height = 60\<rparr>,
                               style = None, isDragged = Some True\<rparr>],
                     edges = []\<rparr>,
           bounds = \<lparr>width = 700, height = 200\<rparr>\<rparr>"
    by (simp add: fallbackLayout_def fallbackNode_def pinned_example_def c)
  ultimately show ?thesis
    by (simp add: pinned_example_def)
qed

section \<open>Properties of the parser\<close>

subsection \<open>The matcher\<close>

lemma rep0_first: "\<exists>rest. rep0 p s = dropWhile p s # rest"
  by (induction s) auto

lemma rep0_set: "r \<in> set (rep0 p s) \<Longrightarrow> r = dropWhile p s \<or> (r \<noteq> [] \<and> p (hd r))"
  by (induction s) (auto split: if_splits)

lemma rep1_first: "s \<noteq> [] \<Longrightarrow> p (hd s) \<Longrightarrow> \<exists>rest. rep1 p s = dropWhile p s # rest"
  using rep0_first [of p "tl s"] by (cases s) (auto simp add: rep1_def)

lemma rep1_set: "r \<in> set (rep1 p s) \<Longrightarrow> r = dropWhile p s \<or> (r \<noteq> [] \<and> p (hd r))"
  using rep0_set [of r p "tl s"] by (cases s) (auto simp add: rep1_def split: if_splits)

text \<open>
  A match either consumes nothing, and then the pattern is nullable, or starts with a
  character the pattern can start with.
\<close>

lemma rmatch_consumes:
  "(r', c') \<in> set (rmatch False rx s c) \<Longrightarrow>
     (r' = s \<and> nullable rx) \<or> (s \<noteq> [] \<and> first_char rx (hd s))"
proof (induction rx arbitrary: s c r' c')
  case (Chars l)
  then show ?case
    by (cases l; cases s) (auto split: option.splits if_splits)
next
  case (Rep0 p)
  then show ?case
    using rep0_set [of r' p s] by (cases s) (auto split: if_splits)
next
  case (Rep1 p)
  then show ?case by (cases s) (auto simp add: rep1_def split: if_splits)
next
  case (Cat a b)
  from Cat.prems obtain r1 c1 where m: "(r1, c1) \<in> set (rmatch False a s c)"
    and n: "(r', c') \<in> set (rmatch False b r1 c1)"
    by auto
  from Cat.IH(1) [OF m] Cat.IH(2) [OF n] show ?case by auto
next
  case (Alt a b)
  from Alt.prems consider
    "(r', c') \<in> set (rmatch False a s c)" | "(r', c') \<in> set (rmatch False b s c)"
    by auto
  then show ?case
  proof cases
    case 1
    from Alt.IH(1) [OF 1] show ?thesis by auto
  next
    case 2
    from Alt.IH(2) [OF 2] show ?thesis by auto
  qed
next
  case (Opt a)
  from Opt.prems consider
    "(r', c') \<in> set (rmatch False a s c)" | "r' = s"
    by auto
  then show ?case
  proof cases
    case 1
    from Opt.IH [OF 1] show ?thesis by auto
  next
    case 2
    then show ?thesis by simp
  qed
next
  case (Cap n a)
  from Cap.prems obtain c1 where "(r', c1) \<in> set (rmatch False a s c)"
    by auto
  from Cap.IH [OF this] show ?case by auto
next
  case Eos
  then show ?case by (auto split: if_splits)
qed

lemma rmatch_fails_first:
  assumes "\<not> nullable rx" and "s = [] \<or> \<not> first_char rx (hd s)"
  shows "rmatch False rx s c = []"
proof (rule ccontr)
  assume "rmatch False rx s c \<noteq> []"
  then obtain m where "m \<in> set (rmatch False rx s c)"
    by (cases "rmatch False rx s c") auto
  then show False
    using rmatch_consumes [of "fst m" "snd m" rx s c] assms by auto
qed


text \<open>
  A group outside the optional part of a pattern is defined in every match, so the
  destructuring of a match array never meets \<open>undefined\<close> there: each of the five
  matchers returns a result whenever its pattern matches.
\<close>

lemma rmatch_defined_groups:
  "(r, c') \<in> set (rmatch ic rx s c) \<Longrightarrow> n \<in> defined_groups rx \<union> dom c \<Longrightarrow> c' n \<noteq> None"
proof (induction rx arbitrary: s c r c')
  case (Chars l)
  then show ?case by (auto split: option.splits)
next
  case (Rep0 p)
  then show ?case by auto
next
  case (Rep1 p)
  then show ?case by auto
next
  case (Cat a b)
  from Cat.prems(1) obtain r1 c1 where m: "(r1, c1) \<in> set (rmatch ic a s c)"
    and k: "(r, c') \<in> set (rmatch ic b r1 c1)"
    by auto
  show ?case
  proof (cases "n \<in> defined_groups b")
    case True
    with Cat.IH(2) [OF k] show ?thesis by simp
  next
    case False
    with Cat.prems(2) have "n \<in> defined_groups a \<union> dom c" by auto
    from Cat.IH(1) [OF m this] have "n \<in> dom c1" by auto
    with Cat.IH(2) [OF k] show ?thesis by simp
  qed
next
  case (Alt a b)
  from Alt.prems(1) consider
    "(r, c') \<in> set (rmatch ic a s c)" | "(r, c') \<in> set (rmatch ic b s c)"
    by auto
  then show ?case
  proof cases
    case 1
    from Alt.IH(1) [OF 1] Alt.prems(2) show ?thesis by auto
  next
    case 2
    from Alt.IH(2) [OF 2] Alt.prems(2) show ?thesis by auto
  qed
next
  case (Opt a)
  from Opt.prems(1) consider
    "(r, c') \<in> set (rmatch ic a s c)" | "c' = c"
    by auto
  then show ?case
  proof cases
    case 1
    from Opt.IH [OF 1] Opt.prems(2) show ?thesis by auto
  next
    case 2
    with Opt.prems(2) show ?thesis by auto
  qed
next
  case (Cap k a)
  from Cap.prems(1) obtain c1 where m: "(r, c1) \<in> set (rmatch ic a s c)"
    and c': "c' = c1(k \<mapsto> take (length s - length r) s)"
    by auto
  show ?case
  proof (cases "n = k")
    case True
    with c' show ?thesis by simp
  next
    case False
    with Cap.prems(2) have "n \<in> defined_groups a \<union> dom c" by auto
    from Cap.IH [OF m this] False c' show ?thesis by simp
  qed
next
  case Eos
  then show ?case by (auto split: if_splits)
qed

lemma regex_exec_defined_groups:
  assumes "regex_exec ic rx s = Some (r, c)" and "n \<in> defined_groups rx"
  shows "c n \<noteq> None"
proof -
  from assms(1) have "(r, c) \<in> set (rmatch ic rx s Map.empty)"
    by (auto simp add: regex_exec_def split: list.splits)
  from rmatch_defined_groups [OF this] assms(2) show ?thesis by simp
qed

lemma nodeMatch_defined:
  "regex_exec False nodeRx line \<noteq> None \<Longrightarrow> nodeMatch line \<noteq> None"
  using regex_exec_defined_groups [of False nodeRx line _ _ 1]
    regex_exec_defined_groups [of False nodeRx line _ _ 2]
  by (auto simp add: nodeMatch_def nodeRx_def)

lemma edgeWithNodesMatch_defined:
  "regex_exec False edgeWithNodesRx line \<noteq> None \<Longrightarrow> edgeWithNodesMatch line \<noteq> None"
  using regex_exec_defined_groups [of False edgeWithNodesRx line _ _ 1]
    regex_exec_defined_groups [of False edgeWithNodesRx line _ _ 2]
    regex_exec_defined_groups [of False edgeWithNodesRx line _ _ 3]
    regex_exec_defined_groups [of False edgeWithNodesRx line _ _ 4]
  by (auto simp add: edgeWithNodesMatch_def edgeWithNodesRx_def)

lemma edgeWithLabelAndNodeMatch_defined:
  "regex_exec False edgeWithLabelAndNodeRx line \<noteq> None \<Longrightarrow>
     edgeWithLabelAndNodeMatch line \<noteq> None"
  using regex_exec_defined_groups [of False edgeWithLabelAndNodeRx line _ _ 1]
    regex_exec_defined_groups [of False edgeWithLabelAndNodeRx line _ _ 2]
    regex_exec_defined_groups [of False edgeWithLabelAndNodeRx line _ _ 3]
    regex_exec_defined_groups [of False edgeWithLabelAndNodeRx line _ _ 4]
  by (auto simp add: edgeWithLabelAndNodeMatch_def edgeWithLabelAndNodeRx_def)

lemma edgeWithLabelMatch_defined:
  "regex_exec False edgeWithLabelRx line \<noteq> None \<Longrightarrow> edgeWithLabelMatch line \<noteq> None"
  using regex_exec_defined_groups [of False edgeWithLabelRx line _ _ 1]
    regex_exec_defined_groups [of False edgeWithLabelRx line _ _ 2]
  by (auto simp add: edgeWithLabelMatch_def edgeWithLabelRx_def)

lemma dashedEdgeMatch_defined:
  "regex_exec False dashedEdgeRx line \<noteq> None \<Longrightarrow> dashedEdgeMatch line \<noteq> None"
  using regex_exec_defined_groups [of False dashedEdgeRx line _ _ 1]
    regex_exec_defined_groups [of False dashedEdgeRx line _ _ 2]
  by (auto simp add: dashedEdgeMatch_def dashedEdgeRx_def)

lemma reports_iff: "reports ic r s c m \<longleftrightarrow> (\<exists>zs. rmatch ic r s c = m # zs)"
  by (cases "rmatch ic r s c") (auto simp add: reports_def)

lemma regex_exec_reports: "reports ic r s Map.empty m \<Longrightarrow> regex_exec ic r s = Some m"
  by (auto simp add: reports_iff regex_exec_def)

lemma reports_Cat:
  "reports ic a s c (r1, c1) \<Longrightarrow> reports ic b r1 c1 m \<Longrightarrow> reports ic (Cat a b) s c m"
  by (auto simp add: reports_iff)

lemma reports_Cap:
  "reports ic a s c (r, c') \<Longrightarrow>
     reports ic (Cap n a) s c (r, c'(n \<mapsto> take (length s - length r) s))"
  by (auto simp add: reports_iff)

lemma dropWhile_run:
  "list_all p u \<Longrightarrow> r = [] \<or> \<not> p (hd r) \<Longrightarrow> dropWhile p (u @ r) = r"
  by (induction u) (auto simp add: dropWhile_eq_self_iff)

lemma reports_Rep0:
  "list_all p u \<Longrightarrow> r = [] \<or> \<not> p (hd r) \<Longrightarrow> reports ic (Rep0 p) (u @ r) c (r, c)"
  using rep0_first [of p "u @ r"] by (auto simp add: reports_iff dropWhile_run)

lemma reports_Rep1:
  assumes "u \<noteq> []" and "list_all p u" and "r = [] \<or> \<not> p (hd r)"
  shows "reports ic (Rep1 p) (u @ r) c (r, c)"
proof -
  from assms(1,2) have "u @ r \<noteq> []" and "p (hd (u @ r))"
    by (cases u; simp)+
  from rep1_first [of "u @ r" p, OF this] assms show ?thesis
    by (auto simp add: reports_iff dropWhile_run)
qed

lemma lit_match_append: "lit_match False l (l @ r) = Some r"
  by (induction l) auto

lemma reports_Chars: "reports False (Chars l) (l @ r) c (r, c)"
  by (simp add: reports_def lit_match_append)

lemma reports_Opt_skip: "rmatch ic a s c = [] \<Longrightarrow> reports ic (Opt a) s c (s, c)"
  by (simp add: reports_def)

lemma rmatch_Cat_empty:
  "(\<And>r c'. (r, c') \<in> set (rmatch ic a s c) \<Longrightarrow> rmatch ic b r c' = []) \<Longrightarrow>
     rmatch ic (Cat a b) s c = []"
  by auto

lemma run_results:
  "(r, c') \<in> set (rmatch False (Rep0 p) s c) \<Longrightarrow> r = dropWhile p s \<or> (r \<noteq> [] \<and> p (hd r))"
  "(r, c') \<in> set (rmatch False (Rep1 p) s c) \<Longrightarrow> r = dropWhile p s \<or> (r \<noteq> [] \<and> p (hd r))"
  "(r, c') \<in> set (rmatch False (Cap n (Rep1 p)) s c) \<Longrightarrow>
     r = dropWhile p s \<or> (r \<noteq> [] \<and> p (hd r))"
  using rep0_set [of r p s] rep1_set [of r p s] by auto

lemma spaces_results:
  "(r, c') \<in> set (rmatch False spaces s c) \<Longrightarrow>
     r = dropWhile is_space s \<or> (r \<noteq> [] \<and> is_space (hd r))"
  unfolding spaces_def by (rule run_results(1))

lemma ident_results:
  "(r, c') \<in> set (rmatch False (Cap n ident) s c) \<Longrightarrow>
     r = dropWhile is_word s \<or> (r \<noteq> [] \<and> is_word (hd r))"
  unfolding ident_def by (rule run_results(3))

lemma spaces_start: "nullable spaces" "first_char spaces ch = is_space ch"
  by (simp_all add: spaces_def)

text \<open>
  A pattern \<open>A K\<close> fails when every rest \<open>A\<close> leaves is either \<open>d\<close>, on which \<open>K\<close> fails,
  or starts with a character of a class with which \<open>K\<close> cannot start.
\<close>

lemma after_run_fails:
  assumes shape: "\<And>r c'. (r, c') \<in> set (rmatch False A s c) \<Longrightarrow> r = d \<or> (r \<noteq> [] \<and> p (hd r))"
    and nn: "\<not> nullable K"
    and fc: "\<And>ch. p ch \<Longrightarrow> \<not> first_char K ch"
    and fd: "\<And>c'. rmatch False K d c' = []"
  shows "rmatch False (Cat A K) s c = []"
proof (rule rmatch_Cat_empty)
  fix r c'
  assume "(r, c') \<in> set (rmatch False A s c)"
  from shape [OF this] show "rmatch False K r c' = []"
  proof
    assume "r = d"
    then show ?thesis by (simp add: fd)
  next
    assume "r \<noteq> [] \<and> p (hd r)"
    then show ?thesis using nn fc by (intro rmatch_fails_first) auto
  qed
qed

lemma word_char:
  "is_word ch \<Longrightarrow> ch \<noteq> CHR ''['' \<and> ch \<noteq> CHR ''('' \<and> ch \<noteq> CHR ''{'' \<and> ch \<noteq> CHR ''|''
     \<and> ch \<noteq> CHR ''-'' \<and> \<not> is_space ch"
  by (auto simp add: is_word_def is_space_def)

lemma space_char:
  "is_space ch \<Longrightarrow> ch \<noteq> CHR ''['' \<and> ch \<noteq> CHR ''('' \<and> ch \<noteq> CHR ''{'' \<and> ch \<noteq> CHR ''|''
     \<and> ch \<noteq> CHR ''-'' \<and> \<not> is_word ch"
  by (auto simp add: is_word_def is_space_def)


lemma bracket_start:
  "\<not> nullable bracket"
  "first_char bracket ch \<longleftrightarrow> ch = CHR ''['' \<or> ch = CHR ''('' \<or> ch = CHR ''{''"
  by (auto simp add: bracket_def)

lemma bracketForm_start:
  assumes "bracketForm s"
  shows "s \<noteq> [] \<and> (hd s = CHR ''['' \<or> hd s = CHR ''('' \<or> hd s = CHR ''{'')"
proof -
  from assms obtain m where "m \<in> set (rmatch False bracket s Map.empty)"
    by (auto simp add: bracketForm_def list_ex_iff)
  then show ?thesis
    using rmatch_consumes [of "fst m" "snd m" bracket s Map.empty]
    by (simp add: bracket_start)
qed

lemma opt_label_skip:
  assumes "s = [] \<or> hd s \<noteq> CHR ''|''"
  shows "reports False (opt_label n) s c (s, c)"
  unfolding opt_label_def
  by (rule reports_Opt_skip, rule rmatch_fails_first) (use assms in auto)

lemma Cat_Cap_fails:
  "rmatch ic a s c = [] \<Longrightarrow> rmatch ic (Cat (Cap n a) b) s c = []"
  by simp

text \<open>The line \<open>a ws1 --> ws2 b t\<close>, where \<open>t\<close> continues with neither a word character nor a bar.\<close>

lemma plain_edge_line:
  assumes a: "a \<noteq> []" "list_all is_word a"
    and b: "b \<noteq> []" "list_all is_word b"
    and ws: "list_all is_space ws1" "list_all is_space ws2"
    and t: "t = [] \<or> (\<not> is_word (hd t) \<and> hd t \<noteq> CHR ''|'')"
  shows "rmatch False nodeRx (a @ ws1 @ ''-->'' @ ws2 @ b @ t) c = []"
    and "rmatch False edgeWithNodesRx (a @ ws1 @ ''-->'' @ ws2 @ b @ t) c = []"
    and "rmatch False edgeWithLabelAndNodeRx (a @ ws1 @ ''-->'' @ ws2 @ b @ t) c = []"
    and "reports False edgeWithLabelRx (a @ ws1 @ ''-->'' @ ws2 @ b @ t) c
           (t, c(1 \<mapsto> a, 2 \<mapsto> b))"
proof -
  let ?t3 = "b @ t"
  let ?t2 = "ws2 @ ?t3"
  let ?t1 = "''-->'' @ ?t2"
  let ?t0 = "ws1 @ ?t1"
  have hb: "is_word (hd ?t3)" "?t3 \<noteq> []"
    using b by (cases b; simp)+
  have h0: "?t0 \<noteq> []" "is_space (hd ?t0) \<or> hd ?t0 = CHR ''-''"
    using ws(1) by (cases ws1; simp)+
  have h0w: "\<not> is_word (hd ?t0)"
    using h0(2) space_char [of "hd ?t0"] word_char [of "hd ?t0"] by auto
  have d0: "dropWhile is_word (a @ ?t0) = ?t0"
    using a(2) h0w by (intro dropWhile_run) auto
  have d1: "dropWhile is_space ?t0 = ?t1"
    using ws(1) by (intro dropWhile_run) (auto simp add: is_space_def)
  have d2: "dropWhile is_space ?t2 = ?t3"
    using ws(2) hb word_char [of "hd ?t3"] by (intro dropWhile_run) auto
  have ident_shape: "\<And>r c'. (r, c') \<in> set (rmatch False (Cap 1 ident) (a @ ?t0) c) \<Longrightarrow>
      r = ?t0 \<or> (r \<noteq> [] \<and> is_word (hd r))"
    using ident_results [of _ _ 1 "a @ ?t0" c] by (simp only: d0)
  have spaces_shape0: "\<And>r c' c1. (r, c') \<in> set (rmatch False spaces ?t0 c1) \<Longrightarrow>
      r = ?t1 \<or> (r \<noteq> [] \<and> is_space (hd r))"
    using spaces_results [of _ _ ?t0] by (simp only: d1)
  have spaces_shape2: "\<And>r c' c1. (r, c') \<in> set (rmatch False spaces ?t2 c1) \<Longrightarrow>
      r = ?t3 \<or> (r \<noteq> [] \<and> is_space (hd r))"
    using spaces_results [of _ _ ?t2] by (simp only: d2)
  have bracket_t0: "\<And>c'. rmatch False bracket ?t0 c' = []"
    using h0 space_char [of "hd ?t0"] by (intro rmatch_fails_first) (auto simp add: bracket_start)
  show "rmatch False nodeRx (a @ ?t0) c = []"
    unfolding nodeRx_def
  proof (rule after_run_fails [where p = is_word and d = ?t0])
    show "\<And>c'. rmatch False (Cat (Cap 2 bracket) Eos) ?t0 c' = []"
      by (rule Cat_Cap_fails) (rule bracket_t0)
  qed (use ident_shape word_char in \<open>auto simp add: bracket_start\<close>)
  show "rmatch False edgeWithNodesRx (a @ ?t0) c = []"
    unfolding edgeWithNodesRx_def
  proof (rule after_run_fails [where p = is_word and d = ?t0])
    show "\<And>c'. rmatch False (Cat (Cap 2 bracket) (Cat spaces (Cat (Chars ''-->'') (Cat spaces
             (Cat (Cap 3 ident) (Cat (Cap 4 bracket) (opt_label 5))))))) ?t0 c' = []"
      by (rule Cat_Cap_fails) (rule bracket_t0)
  qed (use ident_shape word_char in \<open>auto simp add: bracket_start\<close>)
  show "rmatch False edgeWithLabelAndNodeRx (a @ ?t0) c = []"
    unfolding edgeWithLabelAndNodeRx_def
  proof (rule after_run_fails [where p = is_word and d = ?t0])
    fix c1
    let ?K4 = "Cat (Chars ''|'') (Cat (Cap 2 (Rep1 (\<lambda>c. c \<noteq> CHR ''|''))) (Cat (Chars ''|'')
                 (Cat spaces (Cat (Cap 3 ident) (Cat (Cap 4 bracket) Eos)))))"
    have k4: "rmatch False ?K4 ?t3 c' = []" for c'
      using hb word_char [of "hd ?t3"] by (intro rmatch_fails_first) auto
    have k3: "rmatch False (Cat spaces ?K4) ?t2 c' = []" for c'
    proof (rule after_run_fails [where p = is_space and d = ?t3])
      show "\<And>c'. rmatch False ?K4 ?t3 c' = []" by (rule k4)
    qed (use spaces_shape2 space_char in auto)
    have k2: "rmatch False (Cat (Chars ''-->'') (Cat spaces ?K4)) ?t1 c' = []" for c'
    proof (rule rmatch_Cat_empty)
      fix r c2
      assume "(r, c2) \<in> set (rmatch False (Chars ''-->'') ?t1 c')"
      then have "r = ?t2" by (simp add: lit_match_append)
      then show "rmatch False (Cat spaces ?K4) r c2 = []" by (simp only: k3)
    qed
    show "rmatch False (Cat spaces (Cat (Chars ''-->'') (Cat spaces ?K4))) ?t0 c1 = []"
    proof (rule after_run_fails [where p = is_space and d = ?t1])
      show "\<And>c'. rmatch False (Cat (Chars ''-->'') (Cat spaces ?K4)) ?t1 c' = []"
        by (rule k2)
    qed (use spaces_shape0 space_char in auto)
  qed (use ident_shape word_char in \<open>auto simp add: spaces_start\<close>)
  have r1: "reports False (Cap 1 ident) (a @ ?t0) c (?t0, c(1 \<mapsto> a))"
    using reports_Cap [OF reports_Rep1 [OF a(1) a(2), of ?t0 False c], of 1] h0w
    by (simp add: ident_def)
  have r2: "reports False spaces ?t0 c' (?t1, c')" for c'
    unfolding spaces_def using ws(1) by (intro reports_Rep0) (auto simp add: is_space_def)
  have r3: "reports False (Chars ''-->'') ?t1 c' (?t2, c')" for c'
    by (rule reports_Chars)
  have r4: "reports False spaces ?t2 c' (?t3, c')" for c'
    unfolding spaces_def using ws(2) hb word_char [of "hd ?t3"] by (intro reports_Rep0) auto
  have r5: "reports False (Cap 2 ident) ?t3 c' (t, c'(2 \<mapsto> b))" for c'
    using reports_Cap [OF reports_Rep1 [OF b(1) b(2), of t False c'], of 2] t
    by (auto simp add: ident_def)
  have r6: "reports False (opt_label 3) t c' (t, c')" for c'
    using t by (intro opt_label_skip) auto
  show "reports False edgeWithLabelRx (a @ ?t0) c (t, c(1 \<mapsto> a, 2 \<mapsto> b))"
    unfolding edgeWithLabelRx_def
    by (intro reports_Cat [OF r1] reports_Cat [OF r2] reports_Cat [OF r3]
        reports_Cat [OF r4] reports_Cat [OF r5] r6)
qed

subsection \<open>The result of parse\<close>

text \<open>
  C6. \<open>parse\<close> is total, and in its result exactly one of the graph and the error
  is populated. The \<open>try\<close> block of \<open>parse\<close> never throws on a string, so the result
  of \<open>parse\<close> is the result of the block: the error \<open>Empty Mermaid code\<close> for a
  string of white space, the graph otherwise. The handler, given an \<open>Error\<close>, returns an
  error result that carries the message of the \<open>Error\<close>, and whatever it is given it
  populates the error alone.
\<close>

theorem parse_one_field:
  "(result_graph (parse code) \<noteq> None) = (result_error (parse code) = None)
   \<and> (\<exists>r. parse_try code = Inr r \<and> parse code = r)
   \<and> parse code =
       (if trim code = []
        then \<lparr>result_graph = None,
              result_error = Some \<lparr>err_message = ''Empty Mermaid code'',
                                    err_line = None, err_column = None\<rparr>\<rparr>
        else \<lparr>result_graph = Some (parseFlowchartContent (cleanMermaidCode code)),
              result_error = None\<rparr>)
   \<and> parse_catch (JsError msg) =
        \<lparr>result_graph = None,
         result_error = Some \<lparr>err_message = msg, err_line = None, err_column = None\<rparr>\<rparr>
   \<and> (result_graph (parse_catch e) \<noteq> None) = (result_error (parse_catch e) = None)"
  by (simp add: parse_def parse_try_def parse_catch_def Let_def)

subsection \<open>Shape decoding\<close>

lemma startsWith_append: "startsWith (p @ s) p"
  by (simp add: startsWith_def)

lemma endsWith_append: "endsWith (s @ p) p"
  by (simp add: endsWith_def)

lemma startsWith_iff: "startsWith s p \<longleftrightarrow> (\<exists>t. s = p @ t)"
  unfolding startsWith_def by (metis append_eq_conv_conj append_take_drop_id)

lemma endsWith_iff: "endsWith s p \<longleftrightarrow> (\<exists>t. s = t @ p)"
proof
  assume "endsWith s p"
  then have "s = take (length s - length p) s @ p"
    unfolding endsWith_def by (metis append_take_drop_id)
  then show "\<exists>t. s = t @ p" ..
next
  assume "\<exists>t. s = t @ p"
  then show "endsWith s p" by (auto simp add: endsWith_def)
qed

lemma slice_inner:
  "q \<noteq> [] \<Longrightarrow> slice (p @ t @ q) (int (length p)) (- int (length q)) = t"
  by (simp add: slice_def Let_def)

lemma slice_inner1: "slice (a # t @ [b]) 1 (- 1) = t"
  using slice_inner [where p = "[a]" and t = t and q = "[b]"] by simp

lemma slice_inner2: "slice (a # a' # t @ [b, b']) 2 (- 2) = t"
  using slice_inner [where p = "[a, a']" and t = t and q = "[b, b']"] by simp

lemma trim_decompose:
  "\<exists>l r. s = l @ trim s @ r \<and> list_all is_space l \<and> list_all is_space r"
proof -
  let ?l = "takeWhile is_space s"
  let ?m = "dropWhile is_space s"
  let ?r = "rev (takeWhile is_space (rev ?m))"
  have "rev ?m = takeWhile is_space (rev ?m) @ dropWhile is_space (rev ?m)"
    by simp
  then have "?m = trim s @ ?r"
    unfolding trim_def by (metis rev_append rev_rev_ident)
  then have "s = ?l @ trim s @ ?r"
    by (metis takeWhile_dropWhile_id)
  moreover have "list_all is_space ?l"
    by (simp add: list_all_iff) (metis set_takeWhileD)
  moreover have "list_all is_space ?r"
    by (simp add: list_all_iff) (metis set_takeWhileD)
  ultimately show ?thesis by blast
qed

lemma trim_ends:
  "trim s \<noteq> [] \<Longrightarrow> \<not> is_space (hd (trim s)) \<and> \<not> is_space (last (trim s))"
proof -
  assume ne: "trim s \<noteq> []"
  let ?m = "dropWhile is_space s"
  let ?k = "dropWhile is_space (rev ?m)"
  have t: "trim s = rev ?k" by (simp add: trim_def)
  with ne have k: "?k \<noteq> []" by simp
  then have "\<not> is_space (hd ?k)" by (rule hd_dropWhile)
  then have last: "\<not> is_space (last (trim s))"
    using k by (simp add: t last_rev)
  have m: "?m \<noteq> []"
  proof
    assume "?m = []"
    then have "?k = []" by (metis dropWhile.simps(1) rev.simps(1))
    with k show False by simp
  qed
  then have hm: "\<not> is_space (hd ?m)" by (rule hd_dropWhile)
  have "\<exists>u. rev ?m = u @ ?k"
    by (metis takeWhile_dropWhile_id)
  then obtain u where "rev ?m = u @ ?k" ..
  then have "?m = rev ?k @ rev u"
    by (metis rev_append rev_rev_ident)
  with k have "hd ?m = hd (rev ?k)"
    by (metis hd_append2 rev_is_Nil_conv)
  with hm show ?thesis using last by (simp add: t)
qed


lemma wrapped1:
  assumes "startsWith d [a]" and "endsWith d [b]" and "a \<noteq> b"
  shows "\<exists>u. d = [a] @ u @ [b]"
proof -
  from assms(2) obtain v where v: "d = v @ [b]"
    by (auto simp add: endsWith_iff)
  from assms(1) obtain r where r: "d = [a] @ r"
    by (auto simp add: startsWith_iff)
  from v r assms(3) show ?thesis
    by (cases v) auto
qed

lemma wrapped2:
  assumes "startsWith d [a, a]" and "endsWith d [b, b]" and "a \<noteq> b"
  shows "\<exists>u. d = [a, a] @ u @ [b, b]"
proof -
  from assms(2) obtain v where v: "d = v @ [b, b]"
    by (auto simp add: endsWith_iff)
  from assms(1) obtain r where r: "d = [a, a] @ r"
    by (auto simp add: startsWith_iff)
  from v r assms(3) show ?thesis
    by (cases v; cases "tl v") auto
qed

lemma not_bracketed:
  assumes "\<forall>u. d \<noteq> ''['' @ u @ '']''"
  shows "\<not> (startsWith d ''['' \<and> endsWith d '']'')"
    and "\<not> (startsWith d ''[['' \<and> endsWith d '']]'')"
proof -
  show "\<not> (startsWith d ''['' \<and> endsWith d '']'')"
    using wrapped1 [of d "CHR ''[''" "CHR '']''"] assms by auto
  show "\<not> (startsWith d ''[['' \<and> endsWith d '']]'')"
    using wrapped2 [of d "CHR ''[''" "CHR '']''"] assms by fastforce
qed

lemma not_parenthesised:
  assumes "\<forall>u. d \<noteq> ''(('' @ u @ ''))''"
  shows "\<not> (startsWith d ''(('' \<and> endsWith d ''))'')"
  using wrapped2 [of d "CHR ''(''" "CHR '')''"] assms by auto

lemma not_braced:
  assumes "\<forall>u. d \<noteq> ''{'' @ u @ ''}''"
  shows "\<not> (startsWith d ''{'' \<and> endsWith d ''}'')"
  using wrapped1 [of d "CHR ''{''" "CHR ''}''"] assms by auto

lemma parse_double_bracket:
  "parseNodeDefinition i (''[['' @ t @ '']]'') = plain_node i (trim t) Rectangle"
  using startsWith_append [of "''[[''" "t @ '']]''"] endsWith_append [of "''[['' @ t" "'']]''"]
  by (simp add: parseNodeDefinition_def slice_inner2)

lemma parse_bracket:
  assumes "\<forall>u. t \<noteq> ''['' @ u @ '']''"
  shows "parseNodeDefinition i (''['' @ t @ '']'') = plain_node i (trim t) Rectangle"
proof -
  have "\<forall>u. ''['' @ t @ '']'' \<noteq> ''['' @ (''['' @ u @ '']'') @ '']''"
    using assms by simp
  then have "\<forall>u. ''['' @ t @ '']'' \<noteq> ''[['' @ u @ '']]''"
    by simp
  then have n: "\<not> (startsWith (''['' @ t @ '']'') ''[['' \<and> endsWith (''['' @ t @ '']'') '']]'')"
    using wrapped2 [of "''['' @ t @ '']''" "CHR ''[''" "CHR '']''"] by fastforce
  show ?thesis
    using n startsWith_append [of "''[''" "t @ '']''"] endsWith_append [of "''['' @ t" "'']''"]
    by (auto simp add: parseNodeDefinition_def slice_inner1)
qed

lemma parse_parentheses:
  "parseNodeDefinition i (''(('' @ t @ ''))'') = plain_node i (trim t) Circle"
  using startsWith_append [of "''((''" "t @ ''))''"] endsWith_append [of "''(('' @ t" "''))''"]
  by (simp add: parseNodeDefinition_def slice_inner2 startsWith_def)

lemma parse_braces:
  "parseNodeDefinition i (''{'' @ t @ ''}'') = plain_node i (trim t) Diamond"
  using startsWith_append [of "''{''" "t @ ''}''"] endsWith_append [of "''{'' @ t" "''}''"]
  by (simp add: parseNodeDefinition_def slice_inner1 startsWith_def)

lemma parse_other:
  assumes "\<forall>u. d \<noteq> ''['' @ u @ '']''" and "\<forall>u. d \<noteq> ''(('' @ u @ ''))''"
    and "\<forall>u. d \<noteq> ''{'' @ u @ ''}''"
  shows "parseNodeDefinition i d = plain_node i i Rectangle"
  using not_bracketed [OF assms(1)] not_parenthesised [OF assms(2)] not_braced [OF assms(3)]
  by (auto simp add: parseNodeDefinition_def)

text \<open>
  C9. \<open>parseNodeDefinition\<close> decodes \<open>[[t]]\<close> to a rectangle, \<open>[t]\<close> to a rectangle
  (for a \<open>t\<close> that is not itself of the form \<open>[u]\<close>: the form \<open>[[u]]\<close> is tried first),
  \<open>((t))\<close> to a circle and \<open>{t}\<close> to a diamond, each with the label \<open>trim t\<close>; a
  definition \<open>d\<close> of none of the three bracketed forms gives a rectangle labelled with
  the id. \<open>trim t\<close> is \<open>t\<close> without the white space around it: \<open>t\<close> is \<open>trim t\<close> between
  two runs of white space, and \<open>trim t\<close> neither starts nor ends with white space.
\<close>

theorem shape_decoding:
  "parseNodeDefinition i (''[['' @ t @ '']]'') =
     \<lparr>node_id = i, node_label = trim t, shape = Rectangle, position = None,
      node_size = None, style = None, isDragged = None\<rparr>
   \<and> ((\<forall>u. t \<noteq> ''['' @ u @ '']'') \<longrightarrow>
       parseNodeDefinition i (''['' @ t @ '']'') =
         \<lparr>node_id = i, node_label = trim t, shape = Rectangle, position = None,
          node_size = None, style = None, isDragged = None\<rparr>)
   \<and> parseNodeDefinition i (''(('' @ t @ ''))'') =
       \<lparr>node_id = i, node_label = trim t, shape = Circle, position = None,
        node_size = None, style = None, isDragged = None\<rparr>
   \<and> parseNodeDefinition i (''{'' @ t @ ''}'') =
       \<lparr>node_id = i, node_label = trim t, shape = Diamond, position = None,
        node_size = None, style = None, isDragged = None\<rparr>
   \<and> ((\<forall>u. d \<noteq> ''['' @ u @ '']'') \<and> (\<forall>u. d \<noteq> ''(('' @ u @ ''))'')
        \<and> (\<forall>u. d \<noteq> ''{'' @ u @ ''}'') \<longrightarrow>
       parseNodeDefinition i d =
         \<lparr>node_id = i, node_label = i, shape = Rectangle, position = None,
          node_size = None, style = None, isDragged = None\<rparr>)
   \<and> (\<exists>l r. t = l @ trim t @ r \<and> list_all is_space l \<and> list_all is_space r)
   \<and> (trim t \<noteq> [] \<longrightarrow> \<not> is_space (hd (trim t)) \<and> \<not> is_space (last (trim t)))"
  using parse_double_bracket [of i t] parse_bracket [of t i] parse_parentheses [of i t]
    parse_braces [of i t] parse_other [of d i] trim_decompose [of t] trim_ends [of t]
  by (simp add: plain_node_def)

theorem shape_decoding_witness:
  "(\<forall>u. '' Rect '' \<noteq> ''['' @ u @ '']'')
   \<and> parseNodeDefinition ''A'' ''[ Rect ]'' =
       \<lparr>node_id = ''A'', node_label = ''Rect'', shape = Rectangle, position = None,
        node_size = None, style = None, isDragged = None\<rparr>
   \<and> (\<forall>u. ''/x/'' \<noteq> ''['' @ u @ '']'') \<and> (\<forall>u. ''/x/'' \<noteq> ''(('' @ u @ ''))'')
   \<and> (\<forall>u. ''/x/'' \<noteq> ''{'' @ u @ ''}'')
   \<and> parseNodeDefinition ''A'' ''/x/'' =
       \<lparr>node_id = ''A'', node_label = ''A'', shape = Rectangle, position = None,
        node_size = None, style = None, isDragged = None\<rparr>
   \<and> trim '' Rect '' \<noteq> []
   \<and> \<not> is_space (hd (trim '' Rect '')) \<and> \<not> is_space (last (trim '' Rect ''))"
proof -
  have h: "\<forall>u. '' Rect '' \<noteq> ''['' @ u @ '']''" "\<forall>u. ''/x/'' \<noteq> ''['' @ u @ '']''"
    "\<forall>u. ''/x/'' \<noteq> ''(('' @ u @ ''))''" "\<forall>u. ''/x/'' \<noteq> ''{'' @ u @ ''}''"
    by simp_all
  have t: "trim '' Rect '' = ''Rect''"
    by (simp add: trim_def is_space_def)
  from shape_decoding [of "''A''" "'' Rect ''" "''/x/''"] h t show ?thesis
    by simp
qed

subsection \<open>Edges resolve to nodes\<close>

lemma map_set_keys: "set (map fst (map_set k v m)) = insert k (set (map fst m))"
  by (induction m) auto

lemma map_has_map_set: "map_has (map_set k v m) k' \<longleftrightarrow> k' = k \<or> map_has m k'"
  unfolding map_has_def map_set_keys by auto

lemma map_set_entries:
  "e \<in> set (map_set k v m) \<Longrightarrow> e = (k, v) \<or> e \<in> set m"
  by (induction m) (auto split: if_splits)

lemma parseNodeDefinition_id: "node_id (parseNodeDefinition i d) = i"
  by (simp add: parseNodeDefinition_def plain_node_def)

lemma registry_ok_set:
  assumes "registry_ok (m, es)" and "node_id v = k"
  shows "registry_ok (map_set k v m, es)"
  using assms map_set_entries [of _ k v m]
  by (fastforce simp add: registry_ok_def list_all_iff map_has_map_set)

lemma registry_ok_ensure:
  assumes "registry_ok (m, es)"
  shows "registry_ok (if \<not> map_has m k then map_set k (plain_node k k Rectangle) m else m, es)"
  using assms registry_ok_set [of m es "plain_node k k Rectangle" k]
  by (simp add: plain_node_def)

lemma registry_ok_edge:
  assumes "registry_ok (m, es)" and "map_has m a" and "map_has m b"
  shows "registry_ok (m, es @ [new_edge a b l t])"
  using assms by (simp add: registry_ok_def new_edge_def)

lemma ok_declare:
  "registry_ok (m, es) \<Longrightarrow> registry_ok (map_set i (parseNodeDefinition i d) m, es)"
  by (rule registry_ok_set) (simp_all add: parseNodeDefinition_id)

lemma ok_declare_both:
  assumes "registry_ok (m, es)"
  shows "registry_ok (map_set b (parseNodeDefinition b db) (map_set a (parseNodeDefinition a da) m),
                      es @ [new_edge a b l t])"
  by (intro registry_ok_edge ok_declare assms) (simp_all add: map_has_map_set)

lemma ok_ensure_declare:
  assumes "registry_ok (m, es)"
  shows "registry_ok (map_set b (parseNodeDefinition b db)
                        (if \<not> map_has m a then map_set a (plain_node a a Rectangle) m else m),
                      es @ [new_edge a b l t])"
  by (intro registry_ok_edge ok_declare registry_ok_ensure assms)
     (simp_all add: map_has_map_set)

lemma ok_ensure_both:
  assumes "registry_ok (m, es)"
    and "m1 = (if \<not> map_has m a then map_set a (plain_node a a Rectangle) m else m)"
  shows "registry_ok (if \<not> map_has m1 b then map_set b (plain_node b b Rectangle) m1 else m1,
                      es @ [new_edge a b l t])"
proof (intro registry_ok_edge registry_ok_ensure)
  show "registry_ok (m1, es)"
    unfolding assms(2) by (intro registry_ok_ensure assms(1))
  show "map_has (if \<not> map_has m1 b then map_set b (plain_node b b Rectangle) m1 else m1) a"
    unfolding assms(2) by (simp add: map_has_map_set)
  show "map_has (if \<not> map_has m1 b then map_set b (plain_node b b Rectangle) m1 else m1) b"
    by (simp add: map_has_map_set)
qed

lemma process_line_ok:
  assumes "registry_ok st"
  shows "registry_ok (process_line line st)"
proof -
  obtain m es where st: "st = (m, es)" by (cases st)
  with assms have ok: "registry_ok (m, es)" by simp
  show ?thesis
  proof (cases "nodeMatch line")
    case (Some r)
    then show ?thesis
      unfolding st process_line_def using ok by (cases r) (simp add: ok_declare)
  next
    case n1: None
    show ?thesis
    proof (cases "edgeWithNodesMatch line")
      case (Some r)
      then show ?thesis
        unfolding st process_line_def n1 using ok
        by (cases r) (simp add: ok_declare_both Let_def)
    next
      case n2: None
      show ?thesis
      proof (cases "edgeWithLabelAndNodeMatch line")
        case (Some r)
        then show ?thesis
          unfolding st process_line_def n1 n2 using ok_ensure_declare [OF ok]
          by (cases r) (simp add: Let_def)
      next
        case n3: None
        show ?thesis
        proof (cases "edgeWithLabelMatch line")
          case (Some r)
          then show ?thesis
            unfolding st process_line_def n1 n2 n3 using ok_ensure_both [OF ok refl]
            by (cases r) (simp add: Let_def)
        next
          case n4: None
          show ?thesis
          proof (cases "dashedEdgeMatch line")
            case (Some r)
            then show ?thesis
              unfolding st process_line_def n1 n2 n3 n4 using ok_ensure_both [OF ok refl]
              by (cases r) (simp add: Let_def)
          next
            case None
            then show ?thesis
              unfolding st process_line_def n1 n2 n3 n4 using ok by simp
          qed
        qed
      qed
    qed
  qed
qed

lemma foldl_process_line_ok:
  "registry_ok st \<Longrightarrow> registry_ok (foldl (\<lambda>st line. process_line line st) st ls)"
  by (induction ls arbitrary: st) (simp_all add: process_line_ok)

lemma parseFlowchartContent_resolves:
  assumes "e \<in> set (edges (parseFlowchartContent code))"
  shows "edge_from e \<in> set (map node_id (nodes (parseFlowchartContent code)))
       \<and> edge_to e \<in> set (map node_id (nodes (parseFlowchartContent code)))"
proof -
  let ?st = "foldl (\<lambda>st line. process_line line st) ([], []) (source_lines code)"
  obtain m es where st: "?st = (m, es)" by (cases ?st)
  have "registry_ok ([], [])" by (simp add: registry_ok_def)
  then have "registry_ok ?st" by (rule foldl_process_line_ok)
  with st have ok: "registry_ok (m, es)" by simp
  have ids: "map node_id (map_values m) = map fst m"
    using ok by (simp add: registry_ok_def list_all_iff map_values_def)
  from assms st have "e \<in> set es" by (simp add: parseFlowchartContent_def)
  with ok have "map_has m (edge_from e) \<and> map_has m (edge_to e)"
    by (simp add: registry_ok_def list_all_iff)
  then show ?thesis
    using st ids by (simp add: parseFlowchartContent_def map_has_def)
qed

text \<open>
  C2. When \<open>parse\<close> returns a graph, both ends of every edge of the graph are ids of
  nodes of the same graph.
\<close>

theorem parse_edges_resolve:
  assumes "result_graph (parse code) = Some g" and "e \<in> set (edges g)"
  shows "(\<exists>n \<in> set (nodes g). node_id n = edge_from e)
       \<and> (\<exists>n \<in> set (nodes g). node_id n = edge_to e)"
proof -
  from assms(1) have "g = parseFlowchartContent (cleanMermaidCode code)"
    by (auto simp add: parse_def parse_try_def Let_def split: if_splits)
  with assms(2) parseFlowchartContent_resolves [of e "cleanMermaidCode code"]
  show ?thesis by auto
qed

lemma parse_readme_example:
  "parse readme_example = \<lparr>result_graph = Some readme_graph, result_error = None\<rparr>"
  by code_simp

theorem parse_edges_resolve_witness:
  "result_graph (parse readme_example) = Some readme_graph
   \<and> new_edge ''C'' ''E'' None Arrow \<in> set (edges readme_graph)
   \<and> (\<exists>n \<in> set (nodes readme_graph). node_id n = ''C'')
   \<and> (\<exists>n \<in> set (nodes readme_graph). node_id n = ''E'')"
proof -
  have h1: "result_graph (parse readme_example) = Some readme_graph"
    by (simp add: parse_readme_example)
  have h2: "new_edge ''C'' ''E'' None Arrow \<in> set (edges readme_graph)"
    by (simp add: readme_graph_def)
  from parse_edges_resolve [OF h1 h2] h1 h2 show ?thesis
    by (simp add: new_edge_def)
qed

subsection \<open>A plain edge followed by a bracket form\<close>

lemma map_set_absent: "\<not> map_has m k \<Longrightarrow> map_set k v m = m @ [(k, v)]"
  by (induction m) (auto simp add: map_has_def)

lemma nodeMatch_None: "rmatch False nodeRx line Map.empty = [] \<Longrightarrow> nodeMatch line = None"
  by (simp add: nodeMatch_def regex_exec_def)

lemma edgeWithNodesMatch_None:
  "rmatch False edgeWithNodesRx line Map.empty = [] \<Longrightarrow> edgeWithNodesMatch line = None"
  by (simp add: edgeWithNodesMatch_def regex_exec_def)

lemma edgeWithLabelAndNodeMatch_None:
  "rmatch False edgeWithLabelAndNodeRx line Map.empty = [] \<Longrightarrow>
     edgeWithLabelAndNodeMatch line = None"
  by (simp add: edgeWithLabelAndNodeMatch_def regex_exec_def)

text \<open>
  C10. A line \<open>a --> b\<close> followed by a bracket form, where \<open>a\<close> and \<open>b\<close> are ids and
  any white space may stand around the arrow, is matched by none of the first three
  patterns and by the pattern of the plain edge, with no label. The loop registers \<open>a\<close>
  and then \<open>b\<close> as rectangles labelled with their ids unless they are registered
  already, in which case their entries stay as they are, and appends the arrow edge from
  \<open>a\<close> to \<open>b\<close> without a label: the bracket form is not applied.
\<close>

theorem plain_edge_discards_bracket:
  assumes "a \<noteq> []" and "list_all is_word a" and "b \<noteq> []" and "list_all is_word b"
    and "list_all is_space ws1" and "list_all is_space ws2" and "bracketForm bf"
  shows "nodeMatch (a @ ws1 @ ''-->'' @ ws2 @ b @ bf) = None
       \<and> edgeWithNodesMatch (a @ ws1 @ ''-->'' @ ws2 @ b @ bf) = None
       \<and> edgeWithLabelAndNodeMatch (a @ ws1 @ ''-->'' @ ws2 @ b @ bf) = None
       \<and> edgeWithLabelMatch (a @ ws1 @ ''-->'' @ ws2 @ b @ bf) = Some (a, b, None)
       \<and> process_line (a @ ws1 @ ''-->'' @ ws2 @ b @ bf) (nodes0, edges0) =
           (let nodes1 = (if map_has nodes0 a then nodes0
                          else nodes0 @ [(a, \<lparr>node_id = a, node_label = a, shape = Rectangle,
                                               position = None, node_size = None,
                                               style = None, isDragged = None\<rparr>)]);
                nodes2 = (if map_has nodes1 b then nodes1
                          else nodes1 @ [(b, \<lparr>node_id = b, node_label = b, shape = Rectangle,
                                               position = None, node_size = None,
                                               style = None, isDragged = None\<rparr>)])
            in (nodes2,
                edges0 @ [\<lparr>edge_id = a @ ''-'' @ b, edge_from = a, edge_to = b,
                            edge_label = None, edge_type = Some Arrow, edge_style = None,
                            points = None\<rparr>]))"
proof -
  let ?line = "a @ ws1 @ ''-->'' @ ws2 @ b @ bf"
  from bracketForm_start [OF assms(7)] word_char [of "hd bf"]
  have t: "bf = [] \<or> (\<not> is_word (hd bf) \<and> hd bf \<noteq> CHR ''|'')"
    by auto
  note line = plain_edge_line [OF assms(1-6) t, of Map.empty]
  have m1: "nodeMatch ?line = None"
    by (rule nodeMatch_None) (rule line(1))
  have m2: "edgeWithNodesMatch ?line = None"
    by (rule edgeWithNodesMatch_None) (rule line(2))
  have m3: "edgeWithLabelAndNodeMatch ?line = None"
    by (rule edgeWithLabelAndNodeMatch_None) (rule line(3))
  have "regex_exec False edgeWithLabelRx ?line = Some (bf, Map.empty(1 \<mapsto> a, 2 \<mapsto> b))"
    by (rule regex_exec_reports) (rule line(4))
  then have m4: "edgeWithLabelMatch ?line = Some (a, b, None)"
    by (simp add: edgeWithLabelMatch_def)
  show ?thesis
    unfolding m1 m2 m3 m4 process_line_def
    by (simp add: Let_def map_set_absent plain_node_def new_edge_def)
qed

theorem plain_edge_discards_bracket_witness:
  "''A'' \<noteq> [] \<and> list_all is_word ''A'' \<and> ''B'' \<noteq> [] \<and> list_all is_word ''B''
   \<and> list_all is_space '' '' \<and> bracketForm ''{Decision}''
   \<and> edgeWithLabelMatch ''A --> B{Decision}'' = Some (''A'', ''B'', None)
   \<and> process_line ''A --> B{Decision}'' ([], []) =
        ([(''A'', \<lparr>node_id = ''A'', node_label = ''A'', shape = Rectangle, position = None,
                   node_size = None, style = None, isDragged = None\<rparr>),
          (''B'', \<lparr>node_id = ''B'', node_label = ''B'', shape = Rectangle, position = None,
                   node_size = None, style = None, isDragged = None\<rparr>)],
         [\<lparr>edge_id = ''A-B'', edge_from = ''A'', edge_to = ''B'', edge_label = None,
           edge_type = Some Arrow, edge_style = None, points = None\<rparr>])
   \<and> parse ''A --> B{Decision}'' =
        \<lparr>result_graph =
           Some \<lparr>nodes = [plain_node ''A'' ''A'' Rectangle, plain_node ''B'' ''B'' Rectangle],
                 edges = [new_edge ''A'' ''B'' None Arrow]\<rparr>,
         result_error = None\<rparr>"
proof -
  have h: "''A'' \<noteq> []" "list_all is_word ''A''" "''B'' \<noteq> []" "list_all is_word ''B''"
    "list_all is_space '' ''" "bracketForm ''{Decision}''"
    by (simp_all add: is_word_def is_space_def bracketForm_def bracket_def rep1_def)
  have p: "parse ''A --> B{Decision}'' =
        \<lparr>result_graph =
           Some \<lparr>nodes = [plain_node ''A'' ''A'' Rectangle, plain_node ''B'' ''B'' Rectangle],
                 edges = [new_edge ''A'' ''B'' None Arrow]\<rparr>,
         result_error = None\<rparr>"
    by code_simp
  from plain_edge_discards_bracket [OF h(1-4) h(5) h(5) h(6), of "[]" "[]"] h p
  show ?thesis
    by (simp add: map_has_def)
qed

subsection \<open>The last bracket form of an id\<close>

text \<open>
  The merge rule in terms of what the lines do to the registry: the nodes of the
  result are the ids in the order in which lines first declare or ensure them, each
  with the node of its last declaration; so the ids of the nodes are distinct.
\<close>

lemma process_line_ops:
  "fst (process_line line (m, es)) = foldl apply_op m (line_ops line)"
proof (cases "nodeMatch line")
  case (Some r)
  then show ?thesis
    by (cases r) (simp add: process_line_def line_ops_def)
next
  case n1: None
  show ?thesis
  proof (cases "edgeWithNodesMatch line")
    case (Some r)
    then show ?thesis
      by (cases r) (simp add: process_line_def line_ops_def n1 Let_def)
  next
    case n2: None
    show ?thesis
    proof (cases "edgeWithLabelAndNodeMatch line")
      case (Some r)
      then show ?thesis
        by (cases r) (simp add: process_line_def line_ops_def n1 n2 Let_def)
    next
      case n3: None
      show ?thesis
      proof (cases "edgeWithLabelMatch line")
        case (Some r)
        then show ?thesis
          by (cases r) (simp add: process_line_def line_ops_def n1 n2 n3 Let_def)
      next
        case n4: None
        show ?thesis
        proof (cases "dashedEdgeMatch line")
          case (Some r)
          then show ?thesis
            by (cases r) (simp add: process_line_def line_ops_def n1 n2 n3 n4 Let_def)
        next
          case None
          then show ?thesis
            by (simp add: process_line_def line_ops_def n1 n2 n3 n4)
        qed
      qed
    qed
  qed
qed

lemma foldl_process_line_ops:
  "fst (foldl (\<lambda>st line. process_line line st) (m, es) ls) =
     foldl apply_op m (concat (map line_ops ls))"
proof (induction ls arbitrary: m es)
  case Nil
  then show ?case by simp
next
  case (Cons l ls)
  obtain m' es' where st: "process_line l (m, es) = (m', es')"
    by (cases "process_line l (m, es)")
  then have "m' = foldl apply_op m (line_ops l)"
    using process_line_ops [of l m es] by simp
  with Cons.IH [of m' es'] st show ?case by simp
qed

lemma first_seen_set: "set (first_seen is) = set is"
  by (induction "is") auto

lemma first_seen_distinct: "distinct (first_seen is)"
  by (induction "is") (auto simp add: first_seen_set)

lemma first_seen_snoc:
  "first_seen (is @ [i]) = (if i \<in> set is then first_seen is else first_seen is @ [i])"
  by (induction "is") auto

lemma last_declared_snoc:
  "last_declared (ops @ [opn]) i =
     (case opn of
        Declare j d \<Rightarrow> if j = i then Some d else last_declared ops i
      | Ensure j \<Rightarrow> last_declared ops i)"
  by (induction ops) (auto split: option.splits node_op.splits)

lemma last_declared_seen:
  "last_declared ops i = Some d \<Longrightarrow> i \<in> set (map op_id ops)"
  by (induction ops) (auto split: option.splits node_op.splits if_splits)

lemma map_set_mapped:
  assumes "distinct js"
  shows "map_set i v (map (\<lambda>j. (j, f j)) js) =
           (if i \<in> set js then map (\<lambda>j. (j, (f(i := v)) j)) js
            else map (\<lambda>j. (j, f j)) js @ [(i, v)])"
  using assms by (induction js) auto

lemma map_has_mapped: "map_has (map (\<lambda>j. (j, f j)) js) i \<longleftrightarrow> i \<in> set js"
  by (auto simp add: map_has_def comp_def)

lemma merged_node_snoc_Declare:
  "merged_node (ops @ [Declare i d]) = (merged_node ops)(i := parseNodeDefinition i d)"
  by (rule ext) (simp add: merged_node_def last_declared_snoc)

lemma merged_node_snoc_Ensure:
  "merged_node (ops @ [Ensure i]) = merged_node ops"
  by (rule ext) (simp add: merged_node_def last_declared_snoc)

lemma merged_node_unseen:
  "i \<notin> set (map op_id ops) \<Longrightarrow> merged_node ops i = plain_node i i Rectangle"
  using last_declared_seen [of ops i] by (cases "last_declared ops i") (auto simp add: merged_node_def)

lemma foldl_apply_op:
  "foldl apply_op [] ops =
     map (\<lambda>i. (i, merged_node ops i)) (first_seen (map op_id ops))"
proof (induction ops rule: rev_induct)
  case Nil
  then show ?case by simp
next
  case (snoc opn ops)
  let ?ids = "first_seen (map op_id ops)"
  have d: "distinct ?ids" by (rule first_seen_distinct)
  show ?case
  proof (cases opn)
    case (Declare i d')
    show ?thesis
    proof (cases "i \<in> set (map op_id ops)")
      case True
      then show ?thesis
        using snoc.IH d
        by (simp add: Declare map_set_mapped first_seen_snoc first_seen_set
            merged_node_snoc_Declare)
    next
      case False
      have "map (\<lambda>j. (j, ((merged_node ops)(i := parseNodeDefinition i d')) j)) ?ids =
            map (\<lambda>j. (j, merged_node ops j)) ?ids"
        using False by (auto simp add: first_seen_set)
      with False show ?thesis
        using snoc.IH d
        by (simp add: Declare map_set_mapped first_seen_snoc first_seen_set
            merged_node_snoc_Declare)
    qed
  next
    case (Ensure i)
    show ?thesis
    proof (cases "i \<in> set (map op_id ops)")
      case True
      then show ?thesis
        using snoc.IH
        by (simp add: Ensure map_has_mapped first_seen_snoc first_seen_set
            merged_node_snoc_Ensure)
    next
      case False
      then show ?thesis
        using snoc.IH d merged_node_unseen [OF False]
        by (simp add: Ensure map_has_mapped map_set_mapped first_seen_snoc first_seen_set
            merged_node_snoc_Ensure)
    qed
  qed
qed

lemma node_merge_rule:
  "nodes (parseFlowchartContent code) =
     map (merged_node (flowchart_ops code)) (first_seen (map op_id (flowchart_ops code)))"
proof -
  let ?st = "foldl (\<lambda>st line. process_line line st) ([], []) (source_lines code)"
  have "fst ?st = foldl apply_op [] (flowchart_ops code)"
    unfolding flowchart_ops_def by (rule foldl_process_line_ops)
  then have "map snd (fst ?st) =
      map (merged_node (flowchart_ops code)) (first_seen (map op_id (flowchart_ops code)))"
    by (simp add: foldl_apply_op comp_def)
  then show ?thesis
    by (auto simp add: parseFlowchartContent_def map_values_def split: prod.splits)
qed

lemma node_ids_distinct:
  "distinct (map node_id (nodes (parseFlowchartContent code)))"
proof -
  have "node_id (merged_node ops i) = i" for ops i
    by (simp add: merged_node_def plain_node_def parseNodeDefinition_def split: option.splits)
  then have "map node_id (nodes (parseFlowchartContent code)) =
      first_seen (map op_id (flowchart_ops code))"
    by (simp add: node_merge_rule comp_def)
  then show ?thesis by (simp add: first_seen_distinct)
qed

text \<open>
  C3. In the first input the id \<open>B\<close> appears with a bracket form on two lines, last
  as \<open>{Second}\<close>, which decodes to a diamond labelled \<open>Second\<close>; the node \<open>B\<close> of the
  result is the rectangle labelled \<open>First\<close>: the second line is taken as a plain edge,
  which only ensures \<open>B\<close>. The input of the claim's own example gives one node \<open>A\<close>,
  first in the list, labelled \<open>Second\<close>.
\<close>

theorem trailing_bracket_form_not_applied:
  "parse (''B[First]'' @ [CHR 0x0A] @ ''A --> B{Second}'') =
     \<lparr>result_graph =
        Some \<lparr>nodes = [plain_node ''B'' ''First'' Rectangle, plain_node ''A'' ''A'' Rectangle],
              edges = [new_edge ''A'' ''B'' None Arrow]\<rparr>,
      result_error = None\<rparr>
   \<and> parseNodeDefinition ''B'' ''{Second}'' = plain_node ''B'' ''Second'' Diamond
   \<and> parse (''A[First]'' @ [CHR 0x0A] @ ''A-->B'' @ [CHR 0x0A] @ ''A[Second]'') =
     \<lparr>result_graph =
        Some \<lparr>nodes = [plain_node ''A'' ''Second'' Rectangle, plain_node ''B'' ''B'' Rectangle],
              edges = [new_edge ''A'' ''B'' None Arrow]\<rparr>,
      result_error = None\<rparr>"
  by code_simp

end
